theory Spec2Isabelle
  imports Main
begin

section \<open>Python strings\<close>

text \<open>
  The module \<^verbatim>\<open>epydoc/util.py\<close> works on Python strings. A string is modelled as a
  list of 8-bit characters, and the character classes follow Python's byte strings and the
  \<^verbatim>\<open>re\<close> module without flags: whitespace is space, tab, newline, carriage return,
  vertical tab and form feed; a word character is an ASCII letter, a digit or the underscore.
\<close>

abbreviation NL :: char where "NL \<equiv> CHR 0x0A"
abbreviation SP :: char where "SP \<equiv> CHR 0x20"
abbreviation TAB :: char where "TAB \<equiv> CHR 0x09"
abbreviation CR :: char where "CR \<equiv> CHR 0x0D"

definition py_isspace :: "char \<Rightarrow> bool" where
  "py_isspace c \<longleftrightarrow> c = SP \<or> c = TAB \<or> c = NL \<or> c = CR \<or> c = CHR 0x0B \<or> c = CHR 0x0C"

definition is_word_char :: "char \<Rightarrow> bool" where
  \<comment> \<open>the class \<^verbatim>\<open>\w\<close>\<close>
  "is_word_char c \<longleftrightarrow>
     (let n = of_char c :: nat
      in (97 \<le> n \<and> n \<le> 122) \<or> (65 \<le> n \<and> n \<le> 90) \<or> (48 \<le> n \<and> n \<le> 57) \<or> n = 95)"

definition spaces :: "int \<Rightarrow> string" where
  \<comment> \<open>\<^verbatim>\<open>' ' * n\<close>: the empty string when \<open>n\<close> is negative\<close>
  "spaces n = replicate (nat n) SP"

definition rstrip :: "string \<Rightarrow> string" where
  \<comment> \<open>\<^verbatim>\<open>s.rstrip()\<close>\<close>
  "rstrip s = rev (dropWhile py_isspace (rev s))"

fun expandtabs_from :: "nat \<Rightarrow> string \<Rightarrow> string" where
  "expandtabs_from j [] = []"
| "expandtabs_from j (c # cs) =
     (if c = TAB then replicate (8 - j mod 8) SP @ expandtabs_from (j + (8 - j mod 8)) cs
      else c # expandtabs_from (if c = NL \<or> c = CR then 0 else j + 1) cs)"

definition expandtabs :: "string \<Rightarrow> string" where
  \<comment> \<open>\<^verbatim>\<open>s.expandtabs()\<close> with the default tab size 8; the column restarts after a newline
      or a carriage return\<close>
  "expandtabs s = expandtabs_from 0 s"

function str_replace :: "string \<Rightarrow> string \<Rightarrow> string \<Rightarrow> string" where
  "str_replace old new s =
     (if old = [] then new @ concat (map (\<lambda>c. c # new) s)
      else if s = [] then []
      else if take (length old) s = old then new @ str_replace old new (drop (length old) s)
      else hd s # str_replace old new (tl s))"
  by pat_completeness auto
termination
  by (relation "measure (\<lambda>(old, new, s). length s)") auto

declare str_replace.simps [simp del]

fun split_lines :: "string \<Rightarrow> string list" where
  "split_lines [] = [[]]"
| "split_lines (c # cs) =
     (if c = NL then [] # split_lines cs
      else (c # hd (split_lines cs)) # tl (split_lines cs))"

section \<open>Regular expressions used by the module\<close>

text \<open>
  Each pattern of the module is modelled by a matcher: given the rest of the subject string,
  it returns the length of the match that starts there, or \<open>None\<close>. None of the patterns
  can match the empty string. \<open>re_split\<close> is \<^verbatim>\<open>re.split\<close> for a pattern that is one
  capturing group (the separators are kept), \<open>re_sub\<close> is \<^verbatim>\<open>re.sub\<close> with a
  replacement function.
\<close>

type_synonym matcher = "string \<Rightarrow> nat option"

function re_split :: "matcher \<Rightarrow> string \<Rightarrow> string \<Rightarrow> string list" where
  "re_split m cur s =
     (if s = [] then [cur]
      else case m s of
        Some n \<Rightarrow>
          if 0 < n then cur # take n s # re_split m [] (drop n s)
          else re_split m (cur @ [hd s]) (tl s)
      | None \<Rightarrow> re_split m (cur @ [hd s]) (tl s))"
  by pat_completeness auto
termination
  by (relation "measure (\<lambda>(m, cur, s). length s)") auto

declare re_split.simps [simp del]

definition match_blank :: matcher where
  \<comment> \<open>\<^verbatim>\<open>( +|\n)\<close>\<close>
  "match_blank s =
     (case s of
        [] \<Rightarrow> None
      | c # cs \<Rightarrow>
          if c = SP then Some (length (takeWhile (\<lambda>x. x = SP) s))
          else if c = NL then Some 1
          else None)"

definition match_blank_or_split :: "string \<Rightarrow> matcher" where
  \<comment> \<open>\<^verbatim>\<open>( +|\n|[^ \n%s]*[%s])\<close> with the escaped \<open>splitchars\<close> filled in: a run of
      characters that are neither blank nor split characters, closed by a split character\<close>
  "match_blank_or_split splitchars s =
     (case match_blank s of
        Some n \<Rightarrow> Some n
      | None \<Rightarrow>
          (let run = takeWhile (\<lambda>x. x \<noteq> SP \<and> x \<noteq> NL \<and> x \<notin> set splitchars) s
           in case drop (length run) s of
                [] \<Rightarrow> None
              | c # cs \<Rightarrow> if c \<in> set splitchars then Some (length run + 1) else None))"

section \<open>Text processing\<close>

subsection \<open>wordwrap\<close>

fun wordwrap_loop :: "int \<Rightarrow> int \<Rightarrow> string list \<times> int \<Rightarrow> string list \<Rightarrow> string list \<times> int" where
  "wordwrap_loop indent right (result, charindex) [] = (result, charindex)"
| "wordwrap_loop indent right (result, charindex) (chunk # chunks) =
     (if (charindex + int (length chunk) > right \<and> charindex > 0) \<or> chunk = [NL] then
        (if take 1 chunk \<noteq> [NL] \<and> take 1 chunk \<noteq> [SP] then
           wordwrap_loop indent right
             (result @ [NL # spaces indent] @ [chunk], indent + int (length chunk)) chunks
         else
           wordwrap_loop indent right (result @ [NL # spaces indent], indent) chunks)
      else wordwrap_loop indent right (result @ [chunk], charindex + int (length chunk)) chunks)"

definition wordwrap_chunks :: "string \<Rightarrow> string \<Rightarrow> string list" where
  "wordwrap_chunks splitchars str =
     (if splitchars \<noteq> [] then re_split (match_blank_or_split splitchars) [] (expandtabs str)
      else re_split match_blank [] (expandtabs str))"

definition wordwrap :: "string \<Rightarrow> int \<Rightarrow> int \<Rightarrow> int \<Rightarrow> string \<Rightarrow> string" where
  "wordwrap str indent right startindex splitchars =
     (let chunks = wordwrap_chunks splitchars str;
          (result, charindex) =
            wordwrap_loop indent right ([spaces (indent - startindex)], max indent startindex) chunks
      in rstrip (concat result) @ [NL])"

subsection \<open>plaintext_to_html\<close>

definition plaintext_to_html :: "string \<Rightarrow> string" where
  "plaintext_to_html s =
     (let s = str_replace ''&'' ''&amp;'' s;
          s = str_replace [CHR 0x22] ''&quot;'' s;
          s = str_replace ''<'' ''&lt;'' s;
          s = str_replace ''>'' ''&gt;'' s
      in s)"

text \<open>
  The escaping read as one pass over the characters: what each character of the input
  becomes.
\<close>

definition html_entity :: "char \<Rightarrow> string" where
  "html_entity c =
     (if c = CHR ''&'' then ''&amp;''
      else if c = CHR 0x22 then ''&quot;''
      else if c = CHR ''<'' then ''&lt;''
      else if c = CHR ''>'' then ''&gt;''
      else [c])"

subsection \<open>Lines of the wrapped text\<close>

text \<open>
  A line that is one chunk: the indentation followed by a single chunk of the split input,
  as the loop emits it (a chunk is never split), or such a line after \<^verbatim>\<open>rstrip\<close> has
  removed whitespace from its end (the last line of the result).
\<close>

definition single_chunk_line :: "int \<Rightarrow> string list \<Rightarrow> string \<Rightarrow> bool" where
  "single_chunk_line indent chunks l \<longleftrightarrow>
     (\<exists>c\<in>set chunks. l = spaces indent @ c \<or> l = rstrip (spaces indent @ c))"

text \<open>
  Under Python 3 \<^verbatim>\<open>str.rstrip()\<close> strips more characters than under Python 2: of the
  characters below 256 also the four separators \<^verbatim>\<open>\x1c\<close> to \<^verbatim>\<open>\x1f\<close>, \<^verbatim>\<open>\x85\<close> and
  \<^verbatim>\<open>\xa0\<close>. \<open>wordwrap_py3\<close> is \<^verbatim>\<open>wordwrap\<close> as Python 3 runs it; the splitting and
  the loop are the same.
\<close>

definition py3_isspace :: "char \<Rightarrow> bool" where
  "py3_isspace c \<longleftrightarrow>
     py_isspace c \<or> c = CHR 0x1C \<or> c = CHR 0x1D \<or> c = CHR 0x1E \<or> c = CHR 0x1F
       \<or> c = CHR 0x85 \<or> c = CHR 0xA0"

definition rstrip_py3 :: "string \<Rightarrow> string" where
  "rstrip_py3 s = rev (dropWhile py3_isspace (rev s))"

definition wordwrap_py3 :: "string \<Rightarrow> int \<Rightarrow> int \<Rightarrow> int \<Rightarrow> string \<Rightarrow> string" where
  "wordwrap_py3 str indent right startindex splitchars =
     (let chunks = wordwrap_chunks splitchars str;
          (result, charindex) =
            wordwrap_loop indent right ([spaces (indent - startindex)], max indent startindex) chunks
      in rstrip_py3 (concat result) @ [NL])"

text \<open>
  The chunks of \<^verbatim>\<open>re.split(r'( +|\n)', ...)\<close> alternate: a text without space and newline
  (it may be empty), then a separator (a run of spaces or one newline), and so on, ending
  with a text.
\<close>

definition is_text_chunk :: "string \<Rightarrow> bool" where
  "is_text_chunk c \<longleftrightarrow> SP \<notin> set c \<and> NL \<notin> set c"

definition is_blank_chunk :: "string \<Rightarrow> bool" where
  "is_blank_chunk c \<longleftrightarrow> c = [NL] \<or> (c \<noteq> [] \<and> set c \<subseteq> {SP})"

fun chunks_alternate :: "string list \<Rightarrow> bool" where
  "chunks_alternate [] = False"
| "chunks_alternate [t] = is_text_chunk t"
| "chunks_alternate (t # s # rest) = (is_text_chunk t \<and> is_blank_chunk s \<and> chunks_alternate rest)"

section \<open>Python values and exceptions\<close>

text \<open>
  The functions of the module are called with arbitrary Python objects; the model
  distinguishes strings from the other values. An exception is a value of \<open>py_error\<close>,
  and a function that can raise returns \<open>py_error + 'a\<close>.
\<close>

datatype pyval =
    PStr string
  | PInt int
  | PBool bool
  | PNone
  | PList "pyval list"
  | PObject

datatype py_error =
    TypeError
  | ValueError string
  | AttributeError string
  | ImportError string
  | IndexError
  | IOError string
  | OSError string
  | RunSubprocessError string string string
    \<comment> \<open>the message given to \<^verbatim>\<open>OSError.__init__\<close>, and the attributes \<^verbatim>\<open>out\<close> and \<^verbatim>\<open>err\<close>\<close>

fun isinstance_string :: "pyval \<Rightarrow> bool" where
  \<comment> \<open>\<^verbatim>\<open>isinstance(x, six.string_types)\<close>\<close>
  "isinstance_string (PStr s) = True"
| "isinstance_string _ = False"

definition hex_digit :: "nat \<Rightarrow> char" where
  "hex_digit n = ''0123456789abcdef'' ! (n mod 16)"

definition repr_char :: "char \<Rightarrow> char \<Rightarrow> string" where
  "repr_char quote c =
     (if c = quote \<or> c = CHR 0x5C then [CHR 0x5C, c]
      else if c = TAB then [CHR 0x5C, CHR ''t'']
      else if c = NL then [CHR 0x5C, CHR ''n'']
      else if c = CR then [CHR 0x5C, CHR ''r'']
      else if (of_char c :: nat) < 32 \<or> 127 \<le> (of_char c :: nat) then
        [CHR 0x5C, CHR ''x'', hex_digit (of_char c div 16), hex_digit (of_char c mod 16)]
      else [c])"

definition py_repr :: "string \<Rightarrow> string" where
  \<comment> \<open>\<^verbatim>\<open>'%r' % s\<close> for a byte string: single quotes, unless the string has a single quote
      and no double quote\<close>
  "py_repr s =
     (let quote = (if CHR 0x27 \<in> set s \<and> CHR 0x22 \<notin> set s then CHR 0x22 else CHR 0x27)
      in [quote] @ concat (map (repr_char quote) s) @ [quote])"

section \<open>Paths and the file system\<close>

text \<open>
  \<^verbatim>\<open>os.path\<close> is the POSIX one. The state of the file system is a record of the
  queries the module makes; \<^verbatim>\<open>os.path.abspath\<close> depends on the current directory and is
  one of them, and \<^verbatim>\<open>os.listdir\<close> can raise \<^verbatim>\<open>OSError\<close>.
\<close>

record filesystem =
  isfile :: "string \<Rightarrow> bool"
  isdir :: "string \<Rightarrow> bool"
  path_exists :: "string \<Rightarrow> bool"
  abspath :: "string \<Rightarrow> string"
  listdir :: "string \<Rightarrow> py_error + string list"

definition rfind :: "char \<Rightarrow> string \<Rightarrow> int" where
  \<comment> \<open>\<^verbatim>\<open>p.rfind(c)\<close>: the index of the last occurrence, or -1\<close>
  "rfind c p =
     (if c \<in> set p then int (length p) - 1 - int (length (takeWhile (\<lambda>x. x \<noteq> c) (rev p)))
      else - 1)"

definition rstrip_char :: "char \<Rightarrow> string \<Rightarrow> string" where
  \<comment> \<open>\<^verbatim>\<open>s.rstrip(c)\<close>\<close>
  "rstrip_char c s = rev (dropWhile (\<lambda>x. x = c) (rev s))"

definition os_path_split :: "string \<Rightarrow> string \<times> string" where
  "os_path_split p =
     (let i = nat (rfind (CHR ''/'') p + 1);
          head = take i p;
          tail = drop i p;
          head = (if head \<noteq> [] \<and> head \<noteq> replicate (length head) (CHR ''/'')
                  then rstrip_char (CHR ''/'') head else head)
      in (head, tail))"

definition os_path_splitext :: "string \<Rightarrow> string \<times> string" where
  \<comment> \<open>the extension starts at the last dot of the last component, unless that component
      has only dots before it\<close>
  "os_path_splitext p =
     (let sepIndex = rfind (CHR ''/'') p;
          dotIndex = rfind (CHR ''.'') p
      in if dotIndex > sepIndex \<and>
            list_ex (\<lambda>x. x \<noteq> CHR ''.'')
              (take (nat (dotIndex - (sepIndex + 1))) (drop (nat (sepIndex + 1)) p))
         then (take (nat dotIndex) p, drop (nat dotIndex) p)
         else (p, []))"

definition os_path_join :: "string \<Rightarrow> string \<Rightarrow> string" where
  "os_path_join a b =
     (if take 1 b = ''/'' then b
      else if a = [] \<or> last a = CHR ''/'' then a @ b
      else a @ ''/'' @ b)"

definition startswith :: "string \<Rightarrow> string \<Rightarrow> bool" where
  "startswith s pre \<longleftrightarrow> take (length pre) s = pre"

definition match_end :: "string \<Rightarrow> bool" where
  \<comment> \<open>\<^verbatim>\<open>$\<close>: at the end of the string, or before a newline that ends it\<close>
  "match_end s \<longleftrightarrow> s = [] \<or> s = [NL]"

definition match_identifier :: "string \<Rightarrow> bool" where
  \<comment> \<open>\<^verbatim>\<open>re.match('[a-zA-Z_]\w*$', s)\<close> finds a match\<close>
  "match_identifier s =
     (case s of
        [] \<Rightarrow> False
      | c # cs \<Rightarrow> is_word_char c \<and> \<not> (48 \<le> (of_char c :: nat) \<and> (of_char c :: nat) \<le> 57)
                   \<and> match_end (dropWhile is_word_char cs))"

function match_dotted_tail :: "string \<Rightarrow> bool" where
  \<comment> \<open>\<^verbatim>\<open>(\.\w+)*$\<close>\<close>
  "match_dotted_tail s =
     (if take 1 s = ''.'' \<and> drop 1 s \<noteq> [] \<and> is_word_char (hd (drop 1 s))
      then match_dotted_tail (dropWhile is_word_char (drop 1 s))
      else match_end s)"
  by pat_completeness auto
termination
proof (relation "measure length")
  show "wf (measure length)" by simp
next
  fix s :: string
  assume "take 1 s = ''.'' \<and> drop 1 s \<noteq> [] \<and> is_word_char (hd (drop 1 s))"
  then have "s \<noteq> []" by auto
  moreover have "length (dropWhile is_word_char (drop 1 s)) \<le> length (drop 1 s)"
    by (rule length_dropWhile_le)
  ultimately show "(dropWhile is_word_char (drop 1 s), s) \<in> measure length"
    by (cases s) simp_all
qed

declare match_dotted_tail.simps [simp del]

definition match_pyname :: "string \<Rightarrow> bool" where
  \<comment> \<open>\<^verbatim>\<open>re.match(r"\w+(\.\w+)*$", s)\<close> finds a match\<close>
  "match_pyname s \<longleftrightarrow>
     s \<noteq> [] \<and> is_word_char (hd s) \<and> match_dotted_tail (dropWhile is_word_char s)"

section \<open>Python source types\<close>

definition PY_SRC_EXTENSIONS :: "string list" where
  "PY_SRC_EXTENSIONS = [''.py'', ''.pyw'']"

definition PY_BIN_EXTENSIONS :: "string list" where
  "PY_BIN_EXTENSIONS = [''.pyc'', ''.so'', ''.pyd'']"

text \<open>
  The predicates return a Python value that the callers test for truth (\<open>False\<close>,
  \<open>None\<close> or a match object); the model returns its truth value.
\<close>

definition is_module_file :: "filesystem \<Rightarrow> pyval \<Rightarrow> py_error + bool" where
  "is_module_file fs path =
     (case path of
        PStr p \<Rightarrow>
          (let (dir, filename) = os_path_split p;
               (basename, extension) = os_path_splitext filename
           in Inr (isfile fs p \<and> match_identifier basename
                   \<and> extension \<in> set (PY_SRC_EXTENSIONS @ PY_BIN_EXTENSIONS)))
      | _ \<Rightarrow> Inr False)"

definition is_src_filename :: "filesystem \<Rightarrow> pyval \<Rightarrow> py_error + bool" where
  "is_src_filename fs filename =
     (case filename of
        PStr f \<Rightarrow>
          if \<not> path_exists fs f then Inr False
          else Inr (snd (os_path_splitext f) \<in> set PY_SRC_EXTENSIONS)
      | _ \<Rightarrow> Inr False)"

fun is_package_dir_loop :: "filesystem \<Rightarrow> string \<Rightarrow> string list \<Rightarrow> py_error + bool" where
  "is_package_dir_loop fs dirname [] = Inr False"
| "is_package_dir_loop fs dirname (name # names) =
     (let filename = os_path_join dirname name
      in if startswith name ''__init__.'' then
           (case is_module_file fs (PStr filename) of
              Inl e \<Rightarrow> Inl e
            | Inr b \<Rightarrow> if b then Inr True else is_package_dir_loop fs dirname names)
         else is_package_dir_loop fs dirname names)"

definition is_package_dir :: "filesystem \<Rightarrow> pyval \<Rightarrow> py_error + bool" where
  "is_package_dir fs dirname =
     (case dirname of
        PStr d \<Rightarrow>
          if \<not> isdir fs d then Inr False
          else
            (let dirname = abspath fs d;
                 (parent, dir) = os_path_split dirname;
                 (parent, dir) = (if dir = [] then os_path_split parent else (parent, dir))
             in case listdir fs dirname of
                  Inl e \<Rightarrow> Inl e
                | Inr names \<Rightarrow> is_package_dir_loop fs dirname names)
      | _ \<Rightarrow> Inr False)"

definition is_pyname :: "pyval \<Rightarrow> py_error + bool" where
  \<comment> \<open>\<^verbatim>\<open>re.match\<close> raises \<^verbatim>\<open>TypeError\<close> when its subject is not a string\<close>
  "is_pyname name =
     (case name of
        PStr s \<Rightarrow> Inr (match_pyname s)
      | _ \<Rightarrow> Inl TypeError)"

fun py_src_filename_loop :: "filesystem \<Rightarrow> string \<Rightarrow> string \<Rightarrow> string list \<Rightarrow> py_error + string" where
  "py_src_filename_loop fs filename basefile [] =
     Inl (ValueError (''Could not find a corresponding Python source file for ''
                      @ py_repr filename @ ''.''))"
| "py_src_filename_loop fs filename basefile (ext # exts) =
     (if isfile fs (basefile @ ext) then Inr (basefile @ ext)
      else py_src_filename_loop fs filename basefile exts)"

definition py_src_filename :: "filesystem \<Rightarrow> string \<Rightarrow> py_error + string" where
  "py_src_filename fs filename =
     (let (basefile, extension) = os_path_splitext filename
      in if extension \<in> set PY_SRC_EXTENSIONS then Inr filename
         else py_src_filename_loop fs filename basefile PY_SRC_EXTENSIONS)"

text \<open>A file system that holds the given regular files and no directory.\<close>

definition files_only :: "string list \<Rightarrow> filesystem" where
  "files_only files =
     \<lparr> isfile = (\<lambda>p. p \<in> set files), isdir = (\<lambda>p. False),
       path_exists = (\<lambda>p. p \<in> set files), abspath = (\<lambda>p. p),
       listdir = (\<lambda>p. Inl (OSError ''No such file or directory'')) \<rparr>"

section \<open>Terminal control\<close>

text \<open>
  \<^verbatim>\<open>re.sub\<close> with a replacement function: the text between the matches is copied, each
  match is replaced by what the function returns for it. An exception of the function
  ends the substitution at once. The pieces are joined at the end: a result \<open>None\<close> is
  left out, and a result that is not a string makes the join raise \<^verbatim>\<open>TypeError\<close>.
\<close>

function re_sub_pieces :: "matcher \<Rightarrow> (string \<Rightarrow> py_error + pyval) \<Rightarrow> string \<Rightarrow> py_error + pyval list" where
  "re_sub_pieces m f s =
     (if s = [] then Inr []
      else case m s of
        Some n \<Rightarrow>
          if 0 < n then
            (case f (take n s) of
               Inl e \<Rightarrow> Inl e
             | Inr v \<Rightarrow>
                 (case re_sub_pieces m f (drop n s) of
                    Inl e \<Rightarrow> Inl e
                  | Inr vs \<Rightarrow> Inr (v # vs)))
          else
            (case re_sub_pieces m f (tl s) of
               Inl e \<Rightarrow> Inl e
             | Inr vs \<Rightarrow> Inr (PStr [hd s] # vs))
      | None \<Rightarrow>
          (case re_sub_pieces m f (tl s) of
             Inl e \<Rightarrow> Inl e
           | Inr vs \<Rightarrow> Inr (PStr [hd s] # vs)))"
  by pat_completeness auto
termination
  by (relation "measure (\<lambda>(m, f, s). length s)") auto

declare re_sub_pieces.simps [simp del]

fun join_pieces :: "pyval list \<Rightarrow> py_error + string" where
  "join_pieces [] = Inr []"
| "join_pieces (PStr s # vs) =
     (case join_pieces vs of Inl e \<Rightarrow> Inl e | Inr r \<Rightarrow> Inr (s @ r))"
| "join_pieces (PNone # vs) = join_pieces vs"
| "join_pieces (v # vs) = Inl TypeError"

definition re_sub :: "matcher \<Rightarrow> (string \<Rightarrow> py_error + pyval) \<Rightarrow> string \<Rightarrow> py_error + string" where
  "re_sub m f s =
     (case re_sub_pieces m f s of Inl e \<Rightarrow> Inl e | Inr vs \<Rightarrow> join_pieces vs)"

function re_delete :: "matcher \<Rightarrow> string \<Rightarrow> string" where
  \<comment> \<open>\<^verbatim>\<open>re.sub(pattern, '', s)\<close>\<close>
  "re_delete m s =
     (if s = [] then []
      else case m s of
        Some n \<Rightarrow> if 0 < n then re_delete m (drop n s) else hd s # re_delete m (tl s)
      | None \<Rightarrow> hd s # re_delete m (tl s))"
  by pat_completeness auto
termination
  by (relation "measure (\<lambda>(m, s). length s)") auto

declare re_delete.simps [simp del]

definition is_digit :: "char \<Rightarrow> bool" where
  "is_digit c \<longleftrightarrow> 48 \<le> (of_char c :: nat) \<and> (of_char c :: nat) \<le> 57"

definition match_delay :: matcher where
  \<comment> \<open>\<^verbatim>\<open>\$<\d+>[/*]?\<close>\<close>
  "match_delay s =
     (if take 2 s = ''$<'' then
        (let digits = takeWhile is_digit (drop 2 s);
             rest = drop (2 + length digits) s
         in if digits \<noteq> [] \<and> take 1 rest = ''>'' then
              (if take 1 (drop 1 rest) = ''/'' \<or> take 1 (drop 1 rest) = ''*''
               then Some (length digits + 4) else Some (length digits + 3))
            else None)
      else None)"

definition match_substitution :: matcher where
  \<comment> \<open>\<^verbatim>\<open>\$\$|\${\w+}\<close>\<close>
  "match_substitution s =
     (if take 2 s = ''$$'' then Some 2
      else if take 2 s = ''${'' then
        (let name = takeWhile is_word_char (drop 2 s)
         in if name \<noteq> [] \<and> take 1 (drop (2 + length name) s) = ''}''
            then Some (length name + 3) else None)
      else None)"

text \<open>
  What the module asks of the terminal: whether the stream is a tty, whether \<^verbatim>\<open>curses\<close>
  can be imported and set up, and the capability database.
\<close>

record terminal =
  isatty :: bool
  curses_import :: bool
  setupterm_ok :: bool
  tigetnum :: "string \<Rightarrow> int"
  tigetstr :: "string \<Rightarrow> string option"
  tparm :: "string \<Rightarrow> int \<Rightarrow> string"

text \<open>
  A \<^verbatim>\<open>TerminalController\<close> is modelled by its attributes, a list of names and values that
  is read from the front: the attributes of the class, with the attributes set on the
  instance before them. Besides the names of the class body an instance has
  \<^verbatim>\<open>__doc__\<close>, \<^verbatim>\<open>__module__\<close>, \<^verbatim>\<open>__class__\<close> and \<^verbatim>\<open>__dict__\<close>.
\<close>

type_synonym controller = "(string \<times> pyval) list"

definition STRING_CAPABILITIES :: "string list" where
  "STRING_CAPABILITIES =
     [''BOL=cr'', ''UP=cuu1'', ''DOWN=cud1'', ''LEFT=cub1'', ''RIGHT=cuf1'', ''REVERSE=rev'',
      ''CLEAR_EOL=el'', ''BOLD=bold'', ''UNDERLINE=smul'', ''NORMAL=sgr0'']"

definition COLORS :: "string list" where
  "COLORS = [''BLACK'', ''BLUE'', ''GREEN'', ''CYAN'', ''RED'', ''MAGENTA'', ''YELLOW'', ''WHITE'']"

definition ANSICOLORS :: "string list" where
  "ANSICOLORS = [''BLACK'', ''RED'', ''GREEN'', ''YELLOW'', ''BLUE'', ''MAGENTA'', ''CYAN'', ''WHITE'']"

definition TerminalController_doc :: string where
  "TerminalController_doc =
     [NL] @ ''    A class that can be used to portably generate formatted output to'' @
     [NL] @ ''    a terminal.  See'' @
     [NL] @ ''    U{http://aspn.activestate.com/ASPN/Cookbook/Python/Recipe/475116}'' @
     [NL] @ ''    for documentation.  (This is a somewhat stripped-down version.)'' @
     [NL] @ ''    ''"

definition TerminalController_class :: "bool \<Rightarrow> controller" where
  \<comment> \<open>the argument is the value the application has given \<^verbatim>\<open>FORCE_SIMPLE_TERM\<close>\<close>
  "TerminalController_class force =
     [(''BOL'', PStr []), (''UP'', PStr []), (''DOWN'', PStr []), (''LEFT'', PStr []),
      (''RIGHT'', PStr []), (''CLEAR_EOL'', PStr []), (''CLEAR_LINE'', PStr []),
      (''BOLD'', PStr []), (''NORMAL'', PStr []), (''COLS'', PInt 75),
      (''UNDERLINE'', PStr []), (''REVERSE'', PStr []),
      (''BLACK'', PStr []), (''BLUE'', PStr []), (''GREEN'', PStr []), (''CYAN'', PStr []),
      (''RED'', PStr []), (''MAGENTA'', PStr []), (''YELLOW'', PStr []), (''WHITE'', PStr []),
      (''_STRING_CAPABILITIES'', PList (map PStr STRING_CAPABILITIES)),
      (''_COLORS'', PList (map PStr COLORS)),
      (''_ANSICOLORS'', PList (map PStr ANSICOLORS)),
      (''FORCE_SIMPLE_TERM'', PBool force),
      (''__init__'', PObject), (''_tigetstr'', PObject), (''_tparm'', PObject),
      (''render'', PObject), (''_render_sub'', PObject),
      (''__doc__'', PStr TerminalController_doc), (''__module__'', PStr ''epydoc.util''),
      (''__class__'', PObject), (''__dict__'', PObject)]"

definition getattr :: "controller \<Rightarrow> string \<Rightarrow> py_error + pyval" where
  "getattr self name =
     (case map_of self name of None \<Rightarrow> Inl (AttributeError name) | Some v \<Rightarrow> Inr v)"

definition setattr :: "controller \<Rightarrow> string \<Rightarrow> pyval \<Rightarrow> controller" where
  "setattr self name v = (name, v) # self"

definition str_attr :: "controller \<Rightarrow> string \<Rightarrow> string" where
  \<comment> \<open>reading an attribute that holds a string, as \<^verbatim>\<open>self.BOL\<close>\<close>
  "str_attr self name = (case map_of self name of Some (PStr s) \<Rightarrow> s | _ \<Rightarrow> [])"

definition int_attr :: "controller \<Rightarrow> string \<Rightarrow> int" where
  "int_attr self name = (case map_of self name of Some (PInt n) \<Rightarrow> n | _ \<Rightarrow> 0)"

definition tc_tigetstr :: "terminal \<Rightarrow> string \<Rightarrow> string" where
  \<comment> \<open>\<^verbatim>\<open>_tigetstr\<close>: the capability without its delays, the empty string when there is none\<close>
  "tc_tigetstr term cap_name =
     (let cap = (case tigetstr term cap_name of None \<Rightarrow> [] | Some c \<Rightarrow> c)
      in re_delete match_delay cap)"

definition tc_tparm :: "terminal \<Rightarrow> string \<Rightarrow> int \<Rightarrow> string" where
  "tc_tparm term s i = tparm term s i"

definition split_capability :: "string \<Rightarrow> string \<times> string" where
  \<comment> \<open>\<^verbatim>\<open>(attrib, cap_name) = capability.split('=')\<close>\<close>
  "split_capability capability =
     (takeWhile (\<lambda>c. c \<noteq> CHR ''='') capability,
      drop 1 (dropWhile (\<lambda>c. c \<noteq> CHR ''='') capability))"

fun set_string_capabilities :: "terminal \<Rightarrow> string list \<Rightarrow> controller \<Rightarrow> controller" where
  "set_string_capabilities term [] self = self"
| "set_string_capabilities term (capability # rest) self =
     (let (attrib, cap_name) = split_capability capability
      in set_string_capabilities term rest
           (setattr self attrib (PStr (tc_tigetstr term cap_name))))"

fun set_colors :: "terminal \<Rightarrow> string \<Rightarrow> (int \<times> string) list \<Rightarrow> controller \<Rightarrow> controller" where
  "set_colors term set_fg [] self = self"
| "set_colors term set_fg ((i, color) # rest) self =
     set_colors term set_fg rest (setattr self color (PStr (tc_tparm term set_fg i)))"

definition enumerate_colors :: "string list \<Rightarrow> (int \<times> string) list" where
  \<comment> \<open>\<^verbatim>\<open>zip(range(len(colors)), colors)\<close>\<close>
  "enumerate_colors colors = zip (map int [0..<length colors]) colors"

definition TerminalController_init :: "terminal \<Rightarrow> bool \<Rightarrow> controller" where
  "TerminalController_init term force =
     (let self = TerminalController_class force
      in if \<not> isatty term then self
         else if force then self
         else
           (let self = (if curses_import term then self
                        else setattr (setattr self ''BOL'' (PStr [CR])) ''CLEAR_LINE''
                               (PStr ([CR] @ spaces (int_attr self ''COLS'') @ [CR])))
            in if \<not> curses_import term \<or> \<not> setupterm_ok term then self
               else
                 (let self = setattr self ''COLS'' (PInt (tigetnum term ''cols''));
                      self = set_string_capabilities term STRING_CAPABILITIES self;
                      self = (if str_attr self ''BOL'' \<noteq> [] \<and> str_attr self ''CLEAR_EOL'' \<noteq> []
                              then setattr self ''CLEAR_LINE''
                                     (PStr (str_attr self ''BOL'' @ str_attr self ''CLEAR_EOL''))
                              else self);
                      set_fg = tc_tigetstr term ''setf'';
                      self = (if set_fg \<noteq> []
                              then set_colors term set_fg (enumerate_colors COLORS) self
                              else self);
                      set_fg_ansi = tc_tigetstr term ''setaf'';
                      self = (if set_fg_ansi \<noteq> []
                              then set_colors term set_fg_ansi (enumerate_colors ANSICOLORS) self
                              else self)
                  in self)))"

definition render_sub :: "controller \<Rightarrow> string \<Rightarrow> py_error + pyval" where
  \<comment> \<open>\<^verbatim>\<open>_render_sub\<close>, given the matched text\<close>
  "render_sub self s =
     (if s = ''$$'' then Inr (PStr s) else getattr self (butlast (drop 2 s)))"

definition render :: "controller \<Rightarrow> string \<Rightarrow> py_error + string" where
  "render self template = re_sub match_substitution (render_sub self) template"

text \<open>The names of the capability fields of the class.\<close>

definition capability_names :: "string list" where
  "capability_names =
     [''BOL'', ''UP'', ''DOWN'', ''LEFT'', ''RIGHT'', ''CLEAR_EOL'', ''CLEAR_LINE'', ''BOLD'',
      ''NORMAL'', ''UNDERLINE'', ''REVERSE'',
      ''BLACK'', ''BLUE'', ''GREEN'', ''CYAN'', ''RED'', ''MAGENTA'', ''YELLOW'', ''WHITE'']"

text \<open>
  A template read as a sequence of parts: text without a dollar sign, the escape
  \<^verbatim>\<open>$$\<close>, and a substitution \<^verbatim>\<open>${NAME}\<close>. \<open>part_source\<close> is the part as it is written
  in the template, \<open>part_rendered\<close> what stands for it in the rendered string.
\<close>

datatype template_part = Text string | Dollars | Subst string

fun part_source :: "template_part \<Rightarrow> string" where
  "part_source (Text t) = t"
| "part_source Dollars = ''$$''"
| "part_source (Subst name) = ''${'' @ name @ ''}''"

fun part_rendered :: "controller \<Rightarrow> template_part \<Rightarrow> string" where
  "part_rendered self (Text t) = t"
| "part_rendered self Dollars = ''$$''"
| "part_rendered self (Subst name) = str_attr self name"

fun part_ok :: "template_part \<Rightarrow> bool" where
  "part_ok (Text t) = (CHR ''$'' \<notin> set t)"
| "part_ok Dollars = True"
| "part_ok (Subst name) = (name \<in> set capability_names)"





text \<open>Two terminals: a stream that is not a tty, and an ANSI terminal.\<close>

definition pipe_stream :: terminal where
  "pipe_stream =
     \<lparr> isatty = False, curses_import = True, setupterm_ok = True,
       tigetnum = (\<lambda>n. 80), tigetstr = (\<lambda>n. None), tparm = (\<lambda>s i. s) \<rparr>"


text \<open>Every capability field of a constructed controller holds a string.\<close>

definition capabilities_are_strings :: "controller \<Rightarrow> bool" where
  "capabilities_are_strings self \<longleftrightarrow>
     (\<forall>name\<in>set capability_names. \<exists>v. map_of self name = Some (PStr v))"

section \<open>Running a subprocess\<close>

text \<open>
  The command is given as a string or as a list of strings. What the platform does is a
  record: whether the modules can be imported, and what starting the command and talking
  to it gives. \<open>Popen_communicate\<close> stands for \<^verbatim>\<open>Popen(cmd, ...)\<close> followed by
  \<^verbatim>\<open>communicate(data)\<close>: it raises, or gives the return code (when the pipe has the
  attribute), the output and the error output. A pipe of the old interfaces is described
  by what its calls return one after the other.
\<close>

datatype command = CmdString string | CmdList "string list"

record legacy_pipe =
  write_error :: "string option"  \<comment> \<open>the \<^verbatim>\<open>IOError\<close> of \<^verbatim>\<open>to_child.write(data)\<close>, if it raises\<close>
  poll :: "nat \<Rightarrow> int option"  \<comment> \<open>the \<open>k\<close>-th call of \<^verbatim>\<open>poll()\<close>\<close>
  read_out :: "nat \<Rightarrow> string"  \<comment> \<open>the \<open>k\<close>-th \<^verbatim>\<open>from_child.read()\<close>\<close>
  read_err :: "nat \<Rightarrow> string"  \<comment> \<open>the \<open>k\<close>-th \<^verbatim>\<open>child_err.read()\<close>\<close>
  wait :: int

record platform =
  subprocess_import :: bool
  Popen_communicate :: "string list \<Rightarrow> string option \<Rightarrow> py_error + (int option \<times> string \<times> string)"
  popen2_import :: bool
  popen2_Popen3 :: "(string \<Rightarrow> py_error + legacy_pipe) option"
  os_popen3 :: "string \<Rightarrow> py_error + legacy_pipe"

fun split_whitespace_from :: "string \<Rightarrow> string \<Rightarrow> string list" where
  "split_whitespace_from cur [] = (if cur = [] then [] else [cur])"
| "split_whitespace_from cur (c # cs) =
     (if py_isspace c then
        (if cur = [] then split_whitespace_from [] cs else cur # split_whitespace_from [] cs)
      else split_whitespace_from (cur @ [c]) cs)"

definition split_whitespace :: "string \<Rightarrow> string list" where
  \<comment> \<open>\<^verbatim>\<open>s.split()\<close>\<close>
  "split_whitespace s = split_whitespace_from [] s"

fun join_spaces :: "string list \<Rightarrow> string" where
  \<comment> \<open>\<^verbatim>\<open>' '.join(cmd)\<close>\<close>
  "join_spaces [] = []"
| "join_spaces [w] = w"
| "join_spaces (w # ws) = w @ [SP] @ join_spaces ws"

definition command_words :: "command \<Rightarrow> string list" where
  \<comment> \<open>\<^verbatim>\<open>if isinstance(cmd, six.string_types): cmd = cmd.split()\<close>\<close>
  "command_words cmd = (case cmd of CmdString s \<Rightarrow> split_whitespace s | CmdList ws \<Rightarrow> ws)"

definition raise_RunSubprocessError :: "string list \<Rightarrow> string \<Rightarrow> string \<Rightarrow> py_error + string \<times> string" where
  \<comment> \<open>\<^verbatim>\<open>raise RunSubprocessError(cmd, out, err)\<close>; the constructor reads \<^verbatim>\<open>cmd[0]\<close>\<close>
  "raise_RunSubprocessError cmd out err =
     (case cmd of
        [] \<Rightarrow> Inl IndexError
      | c # _ \<Rightarrow> Inl (RunSubprocessError (c @ '' failed'') out err))"

fun is_ImportError :: "py_error \<Rightarrow> bool" where
  "is_ImportError (ImportError m) = True"
| "is_ImportError _ = False"

definition data_given :: "string option \<Rightarrow> bool" where
  \<comment> \<open>\<^verbatim>\<open>if data:\<close>\<close>
  "data_given data \<longleftrightarrow> data \<noteq> None \<and> data \<noteq> Some []"

definition run_with_subprocess ::
    "platform \<Rightarrow> string list \<Rightarrow> string option \<Rightarrow> (py_error + string \<times> string) option" where
  \<comment> \<open>the \<^verbatim>\<open>try\<close> block; \<open>None\<close> when an \<^verbatim>\<open>ImportError\<close> was caught and passed over\<close>
  "run_with_subprocess P cmd data =
     (if \<not> subprocess_import P then None
      else case Popen_communicate P cmd data of
        Inl e \<Rightarrow> if is_ImportError e then None else Some (Inl e)
      | Inr (returncode, out, err) \<Rightarrow>
          (case returncode of
             Some rc \<Rightarrow>
               if rc = 0 then Some (Inr (out, err))
               else Some (raise_RunSubprocessError cmd out err)
           | None \<Rightarrow>
               if err = [] then Some (Inr (out, err))
               else Some (raise_RunSubprocessError cmd out err)))"

partial_function (option) popen3_read_loop ::
    "legacy_pipe \<Rightarrow> nat \<Rightarrow> string \<Rightarrow> string \<Rightarrow> (nat \<times> string \<times> string) option" where
  "popen3_read_loop pipe k out err =
     (if poll pipe k = None
      then popen3_read_loop pipe (Suc k) (out @ read_out pipe k) (err @ read_err pipe k)
      else Some (k, out, err))"

declare popen3_read_loop.simps [code]

definition run_with_Popen3 ::
    "legacy_pipe \<Rightarrow> string list \<Rightarrow> string option \<Rightarrow> (py_error + string \<times> string) option" where
  \<comment> \<open>\<open>None\<close> when the child never exits and the loop does not end\<close>
  "run_with_Popen3 pipe cmd data =
     (if data_given data \<and> write_error pipe \<noteq> None
      then Some (Inl (IOError (the (write_error pipe))))
      else case popen3_read_loop pipe 0 [] [] of
        None \<Rightarrow> None
      | Some (k, out, err) \<Rightarrow>
          (let out = out @ read_out pipe k;
               err = err @ read_err pipe k
           in if wait pipe = 0 then Some (Inr (out, err))
              else Some (raise_RunSubprocessError cmd out err)))"

definition run_with_os_popen3 ::
    "legacy_pipe \<Rightarrow> string list \<Rightarrow> string option \<Rightarrow> py_error + string \<times> string" where
  "run_with_os_popen3 pipe cmd data =
     (if data_given data \<and> write_error pipe \<noteq> None
      then Inl (OSError (the (write_error pipe)))
      else
        (let out = read_out pipe 0;
             err = read_err pipe 0
         in if err = [] then Inr (out, err)
            else raise_RunSubprocessError cmd out err))"

definition run_subprocess ::
    "platform \<Rightarrow> command \<Rightarrow> string option \<Rightarrow> (py_error + string \<times> string) option" where
  "run_subprocess P cmd data =
     (let cmd = command_words cmd
      in case run_with_subprocess P cmd data of
        Some r \<Rightarrow> Some r
      | None \<Rightarrow>
          if \<not> popen2_import P then Some (Inl (ImportError ''No module named popen2''))
          else
            (case popen2_Popen3 P of
               Some Popen3 \<Rightarrow>
                 (case Popen3 (join_spaces cmd) of
                    Inl e \<Rightarrow> Some (Inl e)
                  | Inr pipe \<Rightarrow> run_with_Popen3 pipe cmd data)
             | None \<Rightarrow>
                 (case os_popen3 P (join_spaces cmd) of
                    Inl e \<Rightarrow> Some (Inl e)
                  | Inr pipe \<Rightarrow> Some (run_with_os_popen3 pipe cmd data))))"

text \<open>
  Two platforms: one with the \<^verbatim>\<open>subprocess\<close> module and the programs \<^verbatim>\<open>true\<close>,
  \<^verbatim>\<open>false\<close> and \<^verbatim>\<open>cat\<close>, and one with \<^verbatim>\<open>os.popen3\<close> only, where writing to the child
  fails.
\<close>

definition closed_pipe :: legacy_pipe where
  "closed_pipe =
     \<lparr> write_error = Some ''[Errno 32] Broken pipe'', poll = (\<lambda>k. Some 0),
       read_out = (\<lambda>k. []), read_err = (\<lambda>k. []), wait = 0 \<rparr>"

definition posix_platform :: platform where
  "posix_platform =
     \<lparr> subprocess_import = True,
       Popen_communicate = (\<lambda>cmd data.
         if cmd = [''true''] then Inr (Some 0, [], [])
         else if cmd = [''false''] then Inr (Some 1, [], [])
         else if cmd = [''cat''] then Inr (Some 0, (case data of None \<Rightarrow> [] | Some d \<Rightarrow> d), [])
         else Inl (OSError ''[Errno 2] No such file or directory'')),
       popen2_import = False,
       popen2_Popen3 = None,
       os_popen3 = (\<lambda>c. Inr closed_pipe) \<rparr>"

definition popen3_platform :: platform where
  "popen3_platform =
     \<lparr> subprocess_import = False,
       Popen_communicate = (\<lambda>cmd data. Inl (ImportError ''No module named subprocess'')),
       popen2_import = True,
       popen2_Popen3 = None,
       os_popen3 = (\<lambda>c. Inr closed_pipe) \<rparr>"

section \<open>Auxiliary lemmas\<close>

lemma str_replace_char:
  "str_replace [c] new s = concat (map (\<lambda>x. if x = c then new else [x]) s)"
proof (induction s)
  case Nil
  show ?case by (subst str_replace.simps) simp
next
  case (Cons x xs)
  show ?case by (subst str_replace.simps) (simp add: Cons.IH)
qed

lemma concat_map_concat_map:
  "concat (map f (concat (map g s))) = concat (map (\<lambda>x. concat (map f (g x))) s)"
  by (induction s) simp_all

lemma py_isspace_NL [simp]: "py_isspace NL"
  by (simp add: py_isspace_def)

lemma split_lines_not_Nil [simp]: "split_lines s \<noteq> []"
  by (induction s) simp_all

lemma split_lines_no_NL: "NL \<notin> set b \<Longrightarrow> split_lines b = [b]"
  by (induction b) auto

lemma split_lines_append:
  "split_lines (a @ b) =
     butlast (split_lines a) @ [last (split_lines a) @ hd (split_lines b)] @ tl (split_lines b)"
proof (induction a)
  case Nil
  show ?case by simp
next
  case (Cons x a)
  show ?case
  proof (cases "x = NL")
    case True
    then show ?thesis using Cons.IH by simp
  next
    case False
    show ?thesis
    proof (cases "butlast (split_lines a) = []")
      case True
      then have one: "split_lines a = [last (split_lines a)]"
        by (metis append_butlast_last_id append_Nil split_lines_not_Nil)
      have "tl (split_lines a) = []" by (subst one) simp
      moreover have "hd (split_lines a) = last (split_lines a)" by (subst one) simp
      ultimately show ?thesis using False True Cons.IH by simp
    next
      case nonempty: False
      then have tl_ne: "tl (split_lines a) \<noteq> []"
        by (metis butlast.simps(2) list.collapse butlast.simps(1) split_lines_not_Nil)
      have hd_eq: "hd (butlast (split_lines a)) = hd (split_lines a)"
        using nonempty by (metis butlast.simps(2) list.collapse list.sel(1) split_lines_not_Nil butlast.simps(1))
      have tl_eq: "tl (butlast (split_lines a)) = butlast (tl (split_lines a))"
        by (simp add: butlast_tl)
      have last_eq: "last (tl (split_lines a)) = last (split_lines a)"
        using tl_ne by (simp add: last_tl)
      show ?thesis
        using False nonempty tl_ne Cons.IH hd_eq tl_eq last_eq
        by (simp add: butlast_tl)
    qed
  qed
qed

lemma split_lines_append_NL:
  "split_lines (a @ NL # b) = split_lines a @ split_lines b"
  by (simp add: split_lines_append)

lemma split_lines_append_no_NL:
  "NL \<notin> set b \<Longrightarrow> split_lines (a @ b) = butlast (split_lines a) @ [last (split_lines a) @ b]"
  by (simp add: split_lines_append split_lines_no_NL)

lemma match_blank_Some:
  "match_blank s = Some n \<Longrightarrow> take n s = [NL] \<or> NL \<notin> set (take n s)"
proof (cases s)
  case Nil
  then show ?thesis by simp
next
  case (Cons c cs)
  assume m: "match_blank s = Some n"
  show ?thesis
  proof (cases "c = SP")
    case True
    with m Cons have n: "n = length (takeWhile (\<lambda>x. x = SP) s)"
      by (simp add: match_blank_def)
    have "take n s = takeWhile (\<lambda>x. x = SP) s"
      unfolding n by (metis append_eq_conv_conj takeWhile_dropWhile_id)
    moreover have "NL \<notin> set (takeWhile (\<lambda>x. x = SP) s)"
      by (auto dest: set_takeWhileD)
    ultimately show ?thesis by simp
  next
    case False
    with m Cons show ?thesis
      by (auto simp: match_blank_def split: if_splits)
  qed
qed

lemma match_blank_None: "match_blank s = None \<Longrightarrow> s \<noteq> [] \<Longrightarrow> hd s \<noteq> NL"
  by (cases s) (auto simp: match_blank_def split: if_splits)

lemma match_blank_pos: "match_blank s = Some n \<Longrightarrow> 0 < n"
  by (cases s) (auto simp: match_blank_def split: if_splits)

lemma re_split_chunks_NL:
  assumes "c \<in> set (re_split m cur s)" and "NL \<notin> set cur"
    and "\<And>t n. m t = Some n \<Longrightarrow> 0 < n \<and> (take n t = [NL] \<or> NL \<notin> set (take n t))"
    and "\<And>t. m t = None \<Longrightarrow> t \<noteq> [] \<Longrightarrow> hd t \<noteq> NL"
  shows "c = [NL] \<or> NL \<notin> set c"
  using assms
proof (induction m cur s rule: re_split.induct)
  case (1 m cur s)
  note some = "1.prems"(3) and none = "1.prems"(4)
  show ?case
  proof (cases "s = []")
    case True
    with "1.prems"(1,2) show ?thesis by (subst (asm) re_split.simps) auto
  next
    case ne: False
    show ?thesis
    proof (cases "m s")
      case None
      have "NL \<notin> set (cur @ [hd s])"
        using "1.prems"(2) none [OF None ne] by auto
      moreover have "c \<in> set (re_split m (cur @ [hd s]) (tl s))"
        using "1.prems"(1) ne None by (subst (asm) re_split.simps) simp
      ultimately show ?thesis
        using "1.IH"(1) [OF ne None] some none by blast
    next
      case (Some n)
      have pos: "0 < n" using some [OF Some] by simp
      have "c = cur \<or> c = take n s \<or> c \<in> set (re_split m [] (drop n s))"
        using "1.prems"(1) ne Some pos by (subst (asm) re_split.simps) auto
      moreover have "c \<in> set (re_split m [] (drop n s)) \<Longrightarrow> c = [NL] \<or> NL \<notin> set c"
        using "1.IH"(2) [OF ne Some pos] some none by simp
      ultimately show ?thesis
        using "1.prems"(2) some [OF Some] by blast
    qed
  qed
qed

lemma wordwrap_chunks_NL:
  "c \<in> set (wordwrap_chunks [] str) \<Longrightarrow> c = [NL] \<or> NL \<notin> set c"
  unfolding wordwrap_chunks_def
  by (rule re_split_chunks_NL [where m = match_blank and cur = "[]"])
     (auto dest: match_blank_Some match_blank_None match_blank_pos)

lemma py_isspace_SP [simp]: "py_isspace SP"
  by (simp add: py_isspace_def)

lemma rstrip_last: "rstrip s \<noteq> [] \<Longrightarrow> \<not> py_isspace (last (rstrip s))"
  unfolding rstrip_def by (simp add: last_rev hd_dropWhile)

lemma rstrip_all_space: "\<forall>c\<in>set s. py_isspace c \<Longrightarrow> rstrip s = []"
  unfolding rstrip_def by simp

lemma set_spaces: "c \<in> set (spaces n) \<Longrightarrow> c = SP"
  by (simp add: spaces_def)

lemma re_split_Nil: "re_split m cur [] = [cur]"
  by (subst re_split.simps) simp

lemma wordwrap_chunks_Nil: "wordwrap_chunks splitchars [] = [[]]"
  by (simp add: wordwrap_chunks_def expandtabs_def re_split_Nil)

lemma length_spaces: "0 \<le> n \<Longrightarrow> int (length (spaces n)) = n"
  by (simp add: spaces_def)

lemma NL_notin_spaces [simp]: "NL \<notin> set (spaces n)"
  by (simp add: spaces_def)

lemma wordwrap_loop_lines:
  assumes "0 \<le> indent" and "indent < right"
    and "\<forall>c\<in>set chunks. c = [NL] \<or> NL \<notin> set c"
    and "set chunks \<subseteq> set all"
    and "\<forall>l\<in>set (split_lines (concat result)).
           int (length l) \<le> right \<or> (\<exists>c\<in>set all. l = spaces indent @ c)"
    and "charindex = int (length (last (split_lines (concat result))))"
    and "indent \<le> charindex"
    and "wordwrap_loop indent right (result, charindex) chunks = (result', charindex')"
  shows "\<forall>l\<in>set (split_lines (concat result')).
           int (length l) \<le> right \<or> (\<exists>c\<in>set all. l = spaces indent @ c)"
  using assms(3-)
proof (induction chunks arbitrary: result charindex)
  case Nil
  then show ?case by simp
next
  case (Cons chunk chunks)
  let ?ok = "\<lambda>l. int (length l) \<le> right \<or> (\<exists>c\<in>set all. l = spaces indent @ c)"
  let ?L = "split_lines (concat result)"
  have chunk_in: "chunk \<in> set all" using Cons.prems(2) by simp
  have rest_NL: "\<forall>c\<in>set chunks. c = [NL] \<or> NL \<notin> set c" using Cons.prems(1) by simp
  have rest_sub: "set chunks \<subseteq> set all" using Cons.prems(2) by simp
  have chunk_NL: "chunk = [NL] \<or> NL \<notin> set chunk" using Cons.prems(1) by simp
  show ?case
  proof (cases "(charindex + int (length chunk) > right \<and> charindex > 0) \<or> chunk = [NL]")
    case brk: True
    show ?thesis
    proof (cases "take 1 chunk \<noteq> [NL] \<and> take 1 chunk \<noteq> [SP]")
      case True
      then have "chunk \<noteq> [NL]" by auto
      with chunk_NL have no: "NL \<notin> set (spaces indent @ chunk)" by simp
      let ?r = "result @ [NL # spaces indent] @ [chunk]"
      have lines: "split_lines (concat ?r) = ?L @ [spaces indent @ chunk]"
        using split_lines_append_NL [of "concat result" "spaces indent @ chunk"]
          split_lines_no_NL [OF no] by simp
      have ok: "\<forall>l\<in>set (split_lines (concat ?r)). ?ok l"
        unfolding lines using Cons.prems(3) chunk_in by auto
      have ci: "indent + int (length chunk) = int (length (last (split_lines (concat ?r))))"
        unfolding lines using length_spaces [OF assms(1)] by simp
      have step: "wordwrap_loop indent right (?r, indent + int (length chunk)) chunks
                    = (result', charindex')"
        using Cons.prems(6) brk True by (auto split: if_splits)
      show ?thesis
        by (rule Cons.IH [OF rest_NL rest_sub ok ci _ step]) simp
    next
      case False
      let ?r = "result @ [NL # spaces indent]"
      have lines: "split_lines (concat ?r) = ?L @ [spaces indent]"
        using split_lines_append_NL [of "concat result" "spaces indent"]
          split_lines_no_NL [of "spaces indent"] by simp
      have ok: "\<forall>l\<in>set (split_lines (concat ?r)). ?ok l"
        unfolding lines using Cons.prems(3) length_spaces [OF assms(1)] assms(2) by auto
      have ci: "indent = int (length (last (split_lines (concat ?r))))"
        unfolding lines using length_spaces [OF assms(1)] by simp
      have step: "wordwrap_loop indent right (?r, indent) chunks = (result', charindex')"
        using Cons.prems(6) brk False by (auto split: if_splits)
      show ?thesis
        by (rule Cons.IH [OF rest_NL rest_sub ok ci _ step]) simp
    qed
  next
    case nobrk: False
    then have "chunk \<noteq> [NL]" by simp
    with chunk_NL have no: "NL \<notin> set chunk" by simp
    let ?r = "result @ [chunk]"
    have lines: "split_lines (concat ?r) = butlast ?L @ [last ?L @ chunk]"
      using split_lines_append_no_NL [OF no, of "concat result"] by simp
    have new_ok: "?ok (last ?L @ chunk)"
    proof (cases "charindex + int (length chunk) > right")
      case True
      with nobrk have "charindex \<le> 0" by simp
      with Cons.prems(4,5) assms(1) have "last ?L = []" and "indent = 0" by simp_all
      then show ?thesis using chunk_in by (auto simp: spaces_def)
    next
      case False
      then show ?thesis using Cons.prems(4) by simp
    qed
    have ok: "\<forall>l\<in>set (split_lines (concat ?r)). ?ok l"
      unfolding lines using Cons.prems(3) new_ok by (auto dest: in_set_butlastD)
    have ci: "charindex + int (length chunk) = int (length (last (split_lines (concat ?r))))"
      unfolding lines using Cons.prems(4) by simp
    have step: "wordwrap_loop indent right (?r, charindex + int (length chunk)) chunks
                  = (result', charindex')"
      using Cons.prems(6) nobrk by simp
    show ?thesis
      by (rule Cons.IH [OF rest_NL rest_sub ok ci _ step]) (use Cons.prems(5) in simp)
  qed
qed

lemma set_hd_split_lines: "set (hd (split_lines w)) \<subseteq> set w"
  by (induction w) auto

lemma last_split_lines_snoc:
  "x \<noteq> NL \<Longrightarrow> last (split_lines (q @ [x])) = last (split_lines q) @ [x]"
  using split_lines_append_no_NL [of "[x]" q] by simp

lemma rstrip_append_space:
  assumes "\<forall>c\<in>set h. py_isspace c" and "l = [] \<or> \<not> py_isspace (last l)"
  shows "rstrip (l @ h) = l"
proof -
  have "dropWhile py_isspace (rev h @ rev l) = dropWhile py_isspace (rev l)"
    by (rule dropWhile_append2) (use assms(1) in simp)
  moreover have "dropWhile py_isspace (rev l) = rev l"
    using assms(2) by (cases "rev l") (auto simp: last_rev)
  ultimately show ?thesis by (simp add: rstrip_def)
qed

lemma rstrip_decomp: "\<exists>w. s = rstrip s @ w \<and> (\<forall>c\<in>set w. py_isspace c)"
proof -
  have "rev s = takeWhile py_isspace (rev s) @ dropWhile py_isspace (rev s)" by simp
  then have "s = rev (dropWhile py_isspace (rev s)) @ rev (takeWhile py_isspace (rev s))"
    by (metis rev_append rev_rev_ident)
  moreover have "\<forall>c\<in>set (rev (takeWhile py_isspace (rev s))). py_isspace c"
    by (auto dest: set_takeWhileD)
  ultimately show ?thesis unfolding rstrip_def by blast
qed

lemma split_lines_rstrip:
  assumes "l \<in> set (split_lines (rstrip s))"
  shows "\<exists>l'\<in>set (split_lines s). l = l' \<or> l = rstrip l'"
proof -
  obtain w where s: "s = rstrip s @ w" and w: "\<forall>c\<in>set w. py_isspace c"
    using rstrip_decomp by blast
  let ?p = "rstrip s"
  let ?Lp = "split_lines ?p"
  have Ls: "split_lines s = butlast ?Lp @ [last ?Lp @ hd (split_lines w)] @ tl (split_lines w)"
    using split_lines_append [of ?p w] s by simp
  have "l \<in> set (butlast ?Lp) \<or> l = last ?Lp"
    using assms by (metis append_butlast_last_id split_lines_not_Nil in_set_conv_decomp
        in_set_butlast_appendI rotate1.simps(2) set_ConsD set_rotate1)
  then show ?thesis
  proof
    assume "l \<in> set (butlast ?Lp)"
    then have "l \<in> set (split_lines s)" by (subst Ls) simp
    then show ?thesis by blast
  next
    assume l: "l = last ?Lp"
    have end_l: "l = [] \<or> \<not> py_isspace (last l)"
    proof (cases "?p = []")
      case True
      then show ?thesis using l by simp
    next
      case False
      then have nsp: "\<not> py_isspace (last ?p)" by (rule rstrip_last)
      then have "last ?p \<noteq> NL" by auto
      then have "last (split_lines (butlast ?p @ [last ?p]))
                   = last (split_lines (butlast ?p)) @ [last ?p]"
        by (rule last_split_lines_snoc)
      then have "l = last (split_lines (butlast ?p)) @ [last ?p]"
        using False l by simp
      then show ?thesis using nsp by simp
    qed
    have "\<forall>c\<in>set (hd (split_lines w)). py_isspace c"
      using w set_hd_split_lines by blast
    then have "rstrip (l @ hd (split_lines w)) = l"
      using end_l by (rule rstrip_append_space)
    moreover have "l @ hd (split_lines w) \<in> set (split_lines s)"
      by (subst Ls) (simp add: l)
    ultimately show ?thesis by metis
  qed
qed

lemma length_rstrip: "length (rstrip s) \<le> length s"
  unfolding rstrip_def by (simp add: length_dropWhile_le [of py_isspace "rev s", simplified])

lemma concat_re_split: "concat (re_split m cur s) = cur @ s"
proof (induction m cur s rule: re_split.induct)
  case (1 m cur s)
  show ?case
  proof (cases "s = []")
    case True
    then show ?thesis by (subst re_split.simps) simp
  next
    case ne: False
    show ?thesis
    proof (cases "m s")
      case None
      show ?thesis
        using "1.IH"(1) [OF ne None] ne None by (subst re_split.simps) simp
    next
      case (Some n)
      show ?thesis
      proof (cases "0 < n")
        case True
        show ?thesis
          using "1.IH"(2) [OF ne Some True] ne Some True by (subst re_split.simps) simp
      next
        case False
        show ?thesis
          using "1.IH"(3) [OF ne Some False] ne Some False by (subst re_split.simps) simp
      qed
    qed
  qed
qed

lemma expandtabs_from_no_tab: "TAB \<notin> set s \<Longrightarrow> expandtabs_from j s = s"
  by (induction s arbitrary: j) auto

lemma spaces_0 [simp]: "spaces 0 = []"
  by (simp add: spaces_def)

lemma split_lines_prefix_no_NL:
  "NL \<notin> set a \<Longrightarrow> split_lines (a @ b) = (a @ hd (split_lines b)) # tl (split_lines b)"
  by (simp add: split_lines_append split_lines_no_NL)

lemma rstrip_snoc_NL: "rstrip (r @ [NL]) = rstrip r"
  by (simp add: rstrip_def)

lemma match_blank_blank_chunk:
  assumes "match_blank s = Some n"
  shows "0 < n \<and> is_blank_chunk (take n s)"
proof (cases s)
  case Nil
  with assms show ?thesis by (simp add: match_blank_def)
next
  case (Cons c cs)
  show ?thesis
  proof (cases "c = SP")
    case True
    with assms Cons have n: "n = length (takeWhile (\<lambda>x. x = SP) s)"
      by (simp add: match_blank_def)
    have tk: "take n s = takeWhile (\<lambda>x. x = SP) s"
      unfolding n by (metis append_eq_conv_conj takeWhile_dropWhile_id)
    have "takeWhile (\<lambda>x. x = SP) s \<noteq> []" using True Cons by simp
    moreover have "set (takeWhile (\<lambda>x. x = SP) s) \<subseteq> {SP}"
      by (auto dest: set_takeWhileD)
    ultimately show ?thesis using n tk by (simp add: is_blank_chunk_def)
  next
    case False
    with assms Cons show ?thesis
      by (auto simp: match_blank_def is_blank_chunk_def split: if_splits)
  qed
qed

lemma match_blank_None_text:
  "match_blank s = None \<Longrightarrow> s \<noteq> [] \<Longrightarrow> hd s \<noteq> SP \<and> hd s \<noteq> NL"
  by (cases s) (auto simp: match_blank_def split: if_splits)

lemma re_split_alternate:
  assumes "is_text_chunk cur"
    and "\<And>t n. m t = Some n \<Longrightarrow> 0 < n \<and> is_blank_chunk (take n t)"
    and "\<And>t. m t = None \<Longrightarrow> t \<noteq> [] \<Longrightarrow> hd t \<noteq> SP \<and> hd t \<noteq> NL"
  shows "chunks_alternate (re_split m cur s)"
  using assms
proof (induction m cur s rule: re_split.induct)
  case (1 m cur s)
  note some = "1.prems"(2) and none = "1.prems"(3)
  show ?case
  proof (cases "s = []")
    case True
    then show ?thesis using "1.prems"(1) by (subst re_split.simps) simp
  next
    case ne: False
    show ?thesis
    proof (cases "m s")
      case None
      have "is_text_chunk (cur @ [hd s])"
        using "1.prems"(1) none [OF None ne] by (auto simp: is_text_chunk_def)
      from "1.IH"(1) [OF ne None this] some none
      have "chunks_alternate (re_split m (cur @ [hd s]) (tl s))" by blast
      then show ?thesis using ne None by (subst re_split.simps) simp
    next
      case (Some n)
      have pos: "0 < n" and blank: "is_blank_chunk (take n s)" using some [OF Some] by simp_all
      have "is_text_chunk []" by (simp add: is_text_chunk_def)
      from "1.IH"(2) [OF ne Some pos this] some none
      have "chunks_alternate (re_split m [] (drop n s))" by blast
      then show ?thesis
        using ne Some pos blank "1.prems"(1) by (subst re_split.simps) simp
    qed
  qed
qed

lemma wordwrap_chunks_alternate: "chunks_alternate (wordwrap_chunks [] str)"
  unfolding wordwrap_chunks_def
  by (simp, rule re_split_alternate)
     (auto simp: is_text_chunk_def dest: match_blank_blank_chunk match_blank_None_text)

lemma wordwrap_loop_wrapped:
  assumes "chunks_alternate chunks"
    and "NL \<notin> set pre" and "pre = [] \<or> SP \<in> set pre" and "charindex = int (length pre)"
    and "\<forall>l\<in>set (split_lines (pre @ concat chunks)). int (length l) \<le> right \<or> SP \<notin> set l"
  shows "concat (fst (wordwrap_loop 0 right (result, charindex) chunks))
           = concat result @ concat chunks"
  using assms
proof (induction chunks arbitrary: result charindex pre rule: chunks_alternate.induct)
  case 1
  then show ?case by simp
next
  case (2 t)
  then have t: "SP \<notin> set t" "NL \<notin> set t" by (simp_all add: is_text_chunk_def)
  have "split_lines (pre @ t) = [pre @ t]"
    using t "2.prems"(2) by (simp add: split_lines_no_NL)
  then have "int (length (pre @ t)) \<le> right \<or> SP \<notin> set (pre @ t)"
    using "2.prems"(5) by simp
  then have "charindex + int (length t) \<le> right \<or> charindex = 0"
    using "2.prems"(3,4) by auto
  moreover have "t \<noteq> [NL]" using t by auto
  ultimately show ?case by auto
next
  case (3 t s rest)
  then have t: "SP \<notin> set t" "NL \<notin> set t" and s: "is_blank_chunk s"
    and rest: "chunks_alternate rest" by (simp_all add: is_text_chunk_def)
  have tn: "t \<noteq> [NL]" using t by auto
  have pt: "NL \<notin> set (pre @ t)" using t "3.prems"(2) by simp
  show ?case
  proof (cases "s = [NL]")
    case True
    have lines: "split_lines (pre @ concat (t # s # rest))
                   = (pre @ t) # split_lines ([] @ concat rest)"
      using True split_lines_append_NL [of "pre @ t" "concat rest"] split_lines_no_NL [OF pt]
      by simp
    then have "int (length (pre @ t)) \<le> right \<or> SP \<notin> set (pre @ t)"
      and fits: "\<forall>l\<in>set (split_lines ([] @ concat rest)). int (length l) \<le> right \<or> SP \<notin> set l"
      using "3.prems"(5) by simp_all
    then have nb: "charindex + int (length t) \<le> right \<or> charindex = 0"
      using "3.prems"(3,4) by auto
    have "concat (fst (wordwrap_loop 0 right (result @ [t] @ [[NL]], 0) rest))
            = concat (result @ [t] @ [[NL]]) @ concat rest"
      by (rule "3.IH" [OF rest _ _ _ fits]) simp_all
    then show ?thesis using True tn nb by auto
  next
    case False
    with s have sb: "s \<noteq> []" "set s \<subseteq> {SP}" by (simp_all add: is_blank_chunk_def)
    then have sn: "NL \<notin> set s" by auto
    have sp: "SP \<in> set s" using sb by (cases s) auto
    have pts: "NL \<notin> set (pre @ t @ s)" using pt sn by simp
    have "split_lines (pre @ concat (t # s # rest))
            = ((pre @ t @ s) @ hd (split_lines (concat rest))) # tl (split_lines (concat rest))"
      using split_lines_prefix_no_NL [OF pts, of "concat rest"] by simp
    then have "int (length ((pre @ t @ s) @ hd (split_lines (concat rest)))) \<le> right
                 \<or> SP \<notin> set ((pre @ t @ s) @ hd (split_lines (concat rest)))"
      using "3.prems"(5) by simp
    then have le: "charindex + int (length t) + int (length s) \<le> right"
      using sp "3.prems"(4) by auto
    have fits: "\<forall>l\<in>set (split_lines ((pre @ t @ s) @ concat rest)).
                  int (length l) \<le> right \<or> SP \<notin> set l"
      using "3.prems"(5) by simp
    have "concat (fst (wordwrap_loop 0 right
             (result @ [t] @ [s], charindex + int (length t) + int (length s)) rest))
            = concat (result @ [t] @ [s]) @ concat rest"
      by (rule "3.IH" [OF rest pts _ _ fits]) (use sp "3.prems"(4) in simp_all)
    then show ?thesis using False tn le by auto
  qed
qed

lemma rstrip_no_blank_end: "r = [] \<or> \<not> py_isspace (last r) \<Longrightarrow> rstrip r = r"
  using rstrip_append_space [of "[]" r] by simp

lemma rstrip_py3_snoc_NL: "rstrip_py3 (r @ [NL]) = rstrip_py3 r"
  by (simp add: rstrip_py3_def py3_isspace_def)

lemma rstrip_py3_no_blank_end: "r = [] \<or> \<not> py3_isspace (last r) \<Longrightarrow> rstrip_py3 r = r"
  unfolding rstrip_py3_def by (cases "rev r") (auto simp: last_rev)

lemma render_InrD:
  assumes "render self s = Inr r"
  obtains vs where "re_sub_pieces match_substitution (render_sub self) s = Inr vs"
    and "join_pieces vs = Inr r"
  using assms unfolding render_def re_sub_def by (auto split: sum.splits)

lemma render_InrI:
  assumes "re_sub_pieces match_substitution (render_sub self) s = Inr vs"
    and "join_pieces vs = Inr r"
  shows "render self s = Inr r"
  using assms unfolding render_def re_sub_def by simp

lemma render_Nil: "render self [] = Inr []"
  by (rule render_InrI [where vs = "[]"]) (subst re_sub_pieces.simps, simp_all)

lemma render_dollars:
  assumes "render self rest = Inr r"
  shows "render self (''$$'' @ rest) = Inr (''$$'' @ r)"
proof -
  from assms obtain vs where vs: "re_sub_pieces match_substitution (render_sub self) rest = Inr vs"
    and j: "join_pieces vs = Inr r" by (rule render_InrD)
  have m: "match_substitution (''$$'' @ rest) = Some 2"
    by (simp add: match_substitution_def)
  have "re_sub_pieces match_substitution (render_sub self) (''$$'' @ rest) = Inr (PStr ''$$'' # vs)"
    by (subst re_sub_pieces.simps, insert m vs, simp add: render_sub_def)
  then show ?thesis by (rule render_InrI) (simp add: j)
qed

lemma render_other_char:
  assumes "render self rest = Inr r" and "c \<noteq> CHR ''$''"
  shows "render self (c # rest) = Inr (c # r)"
proof -
  from assms(1) obtain vs where vs: "re_sub_pieces match_substitution (render_sub self) rest = Inr vs"
    and j: "join_pieces vs = Inr r" by (rule render_InrD)
  have m: "match_substitution (c # rest) = None"
    using assms(2) by (simp add: match_substitution_def)
  have "re_sub_pieces match_substitution (render_sub self) (c # rest) = Inr (PStr [c] # vs)"
    by (subst re_sub_pieces.simps, insert m vs, simp)
  then show ?thesis by (rule render_InrI) (simp add: j)
qed

lemma render_text:
  assumes "render self rest = Inr r" and "CHR ''$'' \<notin> set t"
  shows "render self (t @ rest) = Inr (t @ r)"
  using assms(2) by (induction t) (auto simp: assms(1) intro: render_other_char)

lemma render_subst:
  assumes "render self rest = Inr r" and "getattr self name = Inr (PStr v)"
    and "name \<noteq> []" and "\<forall>c\<in>set name. is_word_char c"
  shows "render self (''${'' @ name @ ''}'' @ rest) = Inr (v @ r)"
proof -
  from assms obtain vs where vs: "re_sub_pieces match_substitution (render_sub self) rest = Inr vs"
    and j: "join_pieces vs = Inr r" by (auto elim: render_InrD)
  have nw: "\<not> is_word_char (CHR ''}'')" by (simp add: is_word_char_def)
  have tw: "takeWhile is_word_char (name @ ''}'' @ rest) = name"
    using assms(4) nw by (simp add: takeWhile_append2)
  have t2: "take 2 (''${'' @ name @ ''}'' @ rest) = ''${''" by simp
  have d2: "drop 2 (''${'' @ name @ ''}'' @ rest) = name @ ''}'' @ rest" by simp
  have d3: "drop (2 + length name) (''${'' @ name @ ''}'' @ rest) = ''}'' @ rest" by simp
  have m: "match_substitution (''${'' @ name @ ''}'' @ rest) = Some (length name + 3)"
    unfolding match_substitution_def Let_def t2 d2 tw d3 using assms(3) by simp
  have tk: "take (length name + 3) (''${'' @ name @ ''}'' @ rest) = ''${'' @ name @ ''}''"
    by (simp add: numeral_3_eq_3)
  have dr: "drop (length name + 3) (''${'' @ name @ ''}'' @ rest) = rest"
    by (simp add: numeral_3_eq_3)
  have f: "render_sub self (''${'' @ name @ ''}'') = Inr (PStr v)"
    using assms(2) by (simp add: render_sub_def butlast_append)
  have "re_sub_pieces match_substitution (render_sub self) (''${'' @ name @ ''}'' @ rest)
          = Inr (PStr v # vs)"
    by (subst re_sub_pieces.simps, insert m tk dr f vs, simp)
  then show ?thesis by (rule render_InrI) (simp add: j)
qed

lemma capabilities_class: "capabilities_are_strings (TerminalController_class force)"
  by (simp add: capabilities_are_strings_def capability_names_def TerminalController_class_def)






lemma capability_name_word:
  "name \<in> set capability_names \<Longrightarrow> name \<noteq> [] \<and> (\<forall>c\<in>set name. is_word_char c)"
  unfolding capability_names_def by (auto simp: is_word_char_def)

lemma getattr_capability:
  assumes "capabilities_are_strings self" and "name \<in> set capability_names"
  shows "getattr self name = Inr (PStr (str_attr self name))"
  using assms unfolding capabilities_are_strings_def getattr_def str_attr_def by fastforce

lemma render_parts:
  assumes "capabilities_are_strings self" and "\<forall>p\<in>set parts. part_ok p"
  shows "render self (concat (map part_source parts))
           = Inr (concat (map (part_rendered self) parts))"
  using assms(2)
proof (induction parts)
  case Nil
  show ?case by (simp add: render_Nil)
next
  case (Cons p parts)
  then have IH: "render self (concat (map part_source parts))
                   = Inr (concat (map (part_rendered self) parts))" by simp
  show ?case
  proof (cases p)
    case (Text t)
    with Cons.prems have "CHR ''$'' \<notin> set t" by simp
    from render_text [OF IH this] show ?thesis using Text by simp
  next
    case Dollars
    from render_dollars [OF IH] show ?thesis using Dollars by simp
  next
    case (Subst name)
    with Cons.prems have n: "name \<in> set capability_names" by simp
    from render_subst [OF IH getattr_capability [OF assms(1) n]] capability_name_word [OF n]
    show ?thesis using Subst by simp
  qed
qed






lemma popen3_read_loop_returns:
  "poll pipe (k + n) \<noteq> None \<Longrightarrow> \<exists>r. popen3_read_loop pipe k out err = Some r"
proof (induction n arbitrary: k out err)
  case 0
  then have "poll pipe k \<noteq> None" by simp
  then show ?case by (subst popen3_read_loop.simps) auto
next
  case (Suc n)
  then have "poll pipe (Suc k + n) \<noteq> None" by simp
  from Suc.IH [OF this]
  have ih: "\<exists>r. popen3_read_loop pipe (Suc k) (out @ read_out pipe k) (err @ read_err pipe k) = Some r" .
  show ?case
  proof (cases "poll pipe k = None")
    case True
    then show ?thesis using ih by (subst popen3_read_loop.simps) simp
  next
    case False
    then show ?thesis by (subst popen3_read_loop.simps) auto
  qed
qed

section \<open>Escaping for HTML is one pass\<close>

text \<open>
  C7. \<^verbatim>\<open>plaintext_to_html\<close> replaces the ampersand first and the quote, \<open><\<close> and \<open>>\<close>
  afterwards, so the entities it writes are not escaped again: the four passes together
  are one pass that maps every character of the input to its entity, and the example of the
  specification evaluates to \<^verbatim>\<open>&lt;a &amp; &quot;b&quot;&gt;\<close>.
\<close>

theorem plaintext_to_html_one_pass:
  "plaintext_to_html s = concat (map html_entity s) \<and>
   plaintext_to_html (''<a & '' @ [CHR 0x22] @ ''b'' @ [CHR 0x22] @ ''>'')
     = ''&lt;a &amp; &quot;b&quot;&gt;''"
proof -
  have eq: "plaintext_to_html t = concat (map html_entity t)" for t
    unfolding plaintext_to_html_def Let_def str_replace_char concat_map_concat_map
    by (rule arg_cong [where f = concat], rule map_cong [OF refl]) (simp add: html_entity_def)
  show ?thesis
    by (simp only: eq) (simp add: html_entity_def)
qed

section \<open>Lines and margins of wrapped text\<close>

text \<open>
  C9. For every input string and all parameters, the string returned by \<^verbatim>\<open>wordwrap\<close>
  is some text followed by one newline, where the text ends neither in whitespace nor (in
  particular) in a newline: the result ends with exactly one newline and the whitespace at
  the end of the last line is stripped. The empty string is wrapped to a single newline.
\<close>

theorem wordwrap_one_trailing_newline:
  "(\<exists>r. wordwrap str indent right startindex splitchars = r @ [NL]
        \<and> \<not> (r \<noteq> [] \<and> py_isspace (last r)) \<and> \<not> (r \<noteq> [] \<and> last r = NL))
   \<and> wordwrap [] indent right startindex splitchars = [NL]"
proof
  obtain result charindex where
    "wordwrap_loop indent right ([spaces (indent - startindex)], max indent startindex)
       (wordwrap_chunks splitchars str) = (result, charindex)"
    by (cases "wordwrap_loop indent right ([spaces (indent - startindex)], max indent startindex)
       (wordwrap_chunks splitchars str)") 
  then have out: "wordwrap str indent right startindex splitchars = rstrip (concat result) @ [NL]"
    by (simp add: wordwrap_def)
  have "\<not> (rstrip (concat result) \<noteq> [] \<and> py_isspace (last (rstrip (concat result))))"
    using rstrip_last by blast
  moreover have "\<not> (rstrip (concat result) \<noteq> [] \<and> last (rstrip (concat result)) = NL)"
    using rstrip_last [of "concat result"] py_isspace_NL by metis
  ultimately show "\<exists>r. wordwrap str indent right startindex splitchars = r @ [NL]
        \<and> \<not> (r \<noteq> [] \<and> py_isspace (last r)) \<and> \<not> (r \<noteq> [] \<and> last r = NL)"
    using out by blast
next
  have "rstrip (spaces a @ NL # spaces b) = []" for a b
    by (rule rstrip_all_space) (auto dest: set_spaces)
  moreover have "rstrip (spaces a) = []" for a
    by (rule rstrip_all_space) (auto dest: set_spaces)
  ultimately show "wordwrap [] indent right startindex splitchars = [NL]"
    by (simp add: wordwrap_def wordwrap_chunks_Nil)
qed

text \<open>
  C1 (as amended). For every input string and margins with \<open>0 \<le> indent < right\<close>, every
  line of \<^verbatim>\<open>wordwrap(str, indent, right)\<close> (with \<open>startindex = 0\<close> and no split
  characters) has length at most \<open>right\<close>, or is the indentation followed by a single chunk.
\<close>

theorem wordwrap_lines_within_margin:
  assumes "0 \<le> indent" and "indent < right"
  shows "\<forall>l\<in>set (split_lines (wordwrap str indent right 0 [])).
           int (length l) \<le> right \<or> single_chunk_line indent (wordwrap_chunks [] str) l"
proof
  fix l
  assume l: "l \<in> set (split_lines (wordwrap str indent right 0 []))"
  let ?chunks = "wordwrap_chunks [] str"
  obtain result charindex where
    loop: "wordwrap_loop indent right ([spaces indent], indent) ?chunks = (result, charindex)"
    by (cases "wordwrap_loop indent right ([spaces indent], indent) ?chunks")
  have out: "wordwrap str indent right 0 [] = rstrip (concat result) @ [NL]"
    using loop assms(1) by (simp add: wordwrap_def)
  have start: "split_lines (concat [spaces indent]) = [spaces indent]"
    by (simp add: split_lines_no_NL)
  have inv: "\<forall>l\<in>set (split_lines (concat result)).
           int (length l) \<le> right \<or> (\<exists>c\<in>set ?chunks. l = spaces indent @ c)"
  proof (rule wordwrap_loop_lines [OF assms _ _ _ _ _ loop])
    show "\<forall>c\<in>set ?chunks. c = [NL] \<or> NL \<notin> set c"
      using wordwrap_chunks_NL by blast
    show "set ?chunks \<subseteq> set ?chunks" by simp
    show "\<forall>l\<in>set (split_lines (concat [spaces indent])).
           int (length l) \<le> right \<or> (\<exists>c\<in>set ?chunks. l = spaces indent @ c)"
      unfolding start using length_spaces [OF assms(1)] assms(2) by simp
    show "indent = int (length (last (split_lines (concat [spaces indent]))))"
      unfolding start using length_spaces [OF assms(1)] by simp
    show "indent \<le> indent" by simp
  qed
  have "split_lines (wordwrap str indent right 0 [])
          = split_lines (rstrip (concat result)) @ [[]]"
    unfolding out using split_lines_append_NL [of "rstrip (concat result)" "[]"] by simp
  with l have "l = [] \<or> l \<in> set (split_lines (rstrip (concat result)))" by auto
  then show "int (length l) \<le> right \<or> single_chunk_line indent ?chunks l"
  proof
    assume "l = []"
    then show ?thesis using assms by simp
  next
    assume "l \<in> set (split_lines (rstrip (concat result)))"
    then obtain l' where l': "l' \<in> set (split_lines (concat result))"
      and ll': "l = l' \<or> l = rstrip l'"
      using split_lines_rstrip by blast
    from inv l' have "int (length l') \<le> right \<or> (\<exists>c\<in>set ?chunks. l' = spaces indent @ c)"
      by blast
    then show ?thesis
    proof
      assume "int (length l') \<le> right"
      moreover have "length l \<le> length l'"
        using ll' length_rstrip [of l'] by auto
      ultimately show ?thesis by simp
    next
      assume "\<exists>c\<in>set ?chunks. l' = spaces indent @ c"
      then show ?thesis using ll' unfolding single_chunk_line_def by blast
    qed
  qed
qed

theorem wordwrap_lines_within_margin_witness:
  "(0::int) \<le> 1 \<and> (1::int) < 4 \<and>
   '' aaaaa'' \<in> set (split_lines (wordwrap ''aaaaa bb c'' 1 4 0 [])) \<and>
   '' bb '' \<in> set (split_lines (wordwrap ''aaaaa bb c'' 1 4 0 [])) \<and>
   single_chunk_line 1 (wordwrap_chunks [] ''aaaaa bb c'') '' aaaaa'' \<and>
   int (length '' bb '') \<le> 4"
proof -
  have a: "'' aaaaa'' \<in> set (split_lines (wordwrap ''aaaaa bb c'' 1 4 0 []))" by code_simp
  have b: "'' bb '' \<in> set (split_lines (wordwrap ''aaaaa bb c'' 1 4 0 []))" by code_simp
  have h1: "(0::int) \<le> 1" and h2: "(1::int) < 4" by simp_all
  from wordwrap_lines_within_margin [OF h1 h2, of "''aaaaa bb c''"] a
  have "int (length '' aaaaa'') \<le> 4 \<or> single_chunk_line 1 (wordwrap_chunks [] ''aaaaa bb c'') '' aaaaa''"
    by blast
  then have "single_chunk_line 1 (wordwrap_chunks [] ''aaaaa bb c'') '' aaaaa''" by simp
  then show ?thesis using a b by simp
qed

text \<open>
  The claim as stated admits every \<open>indent < right\<close>. With a negative indent the column
  counter restarts below zero after a line break, and a line of several chunks grows past
  the margin: \<^verbatim>\<open>wordwrap('a\nb c d e', indent=-5, right=3)\<close> keeps the line
  \<^verbatim>\<open>b c d e\<close> of length 7.
\<close>

theorem wordwrap_negative_indent_counterexample:
  "(-5::int) < 3 \<and>
   ''b c d e'' \<in> set (split_lines (wordwrap (''a'' @ [NL] @ ''b c d e'') (-5) 3 0 [])) \<and>
   \<not> int (length ''b c d e'') \<le> 3 \<and>
   \<not> single_chunk_line (-5) (wordwrap_chunks [] (''a'' @ [NL] @ ''b c d e'')) ''b c d e''"
  by code_simp

text \<open>
  C5 (as amended). With \<open>indent = 0\<close> and \<open>startindex = 0\<close>, a text without tabs, each
  of whose lines fits the right margin or has no space in it (a single word that is too
  long), and which ends with one newline after a character that is not blank, is returned
  unchanged by \<^verbatim>\<open>wordwrap\<close>, under Python 2 and under Python 3.
\<close>

theorem wordwrap_keeps_wrapped_text:
  assumes "TAB \<notin> set r"
    and "\<forall>l\<in>set (split_lines r). int (length l) \<le> right \<or> SP \<notin> set l"
    and "r = [] \<or> \<not> py3_isspace (last r)"
  shows "wordwrap (r @ [NL]) 0 right 0 [] = r @ [NL]
         \<and> wordwrap_py3 (r @ [NL]) 0 right 0 [] = r @ [NL]"
proof -
  let ?t = "r @ [NL]"
  let ?chunks = "wordwrap_chunks [] ?t"
  have "TAB \<notin> set ?t" using assms(1) by simp
  then have "expandtabs ?t = ?t"
    unfolding expandtabs_def by (rule expandtabs_from_no_tab)
  then have cc: "concat ?chunks = ?t"
    by (simp add: wordwrap_chunks_def concat_re_split)
  have fits: "\<forall>l\<in>set (split_lines ([] @ concat ?chunks)). int (length l) \<le> right \<or> SP \<notin> set l"
    unfolding cc using assms(2) split_lines_append_NL [of r "[]"] by simp
  have "concat (fst (wordwrap_loop 0 right ([[]], 0) ?chunks)) = concat [[]] @ concat ?chunks"
    by (rule wordwrap_loop_wrapped [OF wordwrap_chunks_alternate _ _ _ fits]) simp_all
  then have joined: "concat (fst (wordwrap_loop 0 right ([[]], 0) ?chunks)) = ?t"
    using cc by simp
  have "r = [] \<or> \<not> py_isspace (last r)"
    using assms(3) by (auto simp: py3_isspace_def)
  then have "rstrip ?t = r" by (simp add: rstrip_snoc_NL rstrip_no_blank_end)
  moreover have "rstrip_py3 ?t = r"
    using assms(3) by (simp add: rstrip_py3_snoc_NL rstrip_py3_no_blank_end)
  ultimately show ?thesis
    using joined by (simp add: wordwrap_def wordwrap_py3_def split_def)
qed

theorem wordwrap_keeps_wrapped_text_witness:
  "TAB \<notin> set (''aaaaa'' @ [NL] @ ''b c'') \<and>
   list_all (\<lambda>l. int (length l) \<le> 3 \<or> SP \<notin> set l) (split_lines (''aaaaa'' @ [NL] @ ''b c'')) \<and>
   \<not> py3_isspace (last (''aaaaa'' @ [NL] @ ''b c'')) \<and>
   wordwrap ''aaaaa b c'' 0 3 0 [] = (''aaaaa'' @ [NL] @ ''b c'') @ [NL] \<and>
   wordwrap ((''aaaaa'' @ [NL] @ ''b c'') @ [NL]) 0 3 0 [] = (''aaaaa'' @ [NL] @ ''b c'') @ [NL] \<and>
   wordwrap_py3 ((''aaaaa'' @ [NL] @ ''b c'') @ [NL]) 0 3 0 []
     = (''aaaaa'' @ [NL] @ ''b c'') @ [NL]"
proof -
  let ?r = "''aaaaa'' @ [NL] @ ''b c''"
  have h1: "TAB \<notin> set ?r" by simp
  have h2: "\<forall>l\<in>set (split_lines ?r). int (length l) \<le> 3 \<or> SP \<notin> set l" by simp
  have nb: "\<not> py3_isspace (last ?r)" by (simp add: py3_isspace_def py_isspace_def)
  then have h3: "?r = [] \<or> \<not> py3_isspace (last ?r)" by simp
  have w: "wordwrap ''aaaaa b c'' 0 3 0 [] = ?r @ [NL]" by code_simp
  show ?thesis
    using wordwrap_keeps_wrapped_text [OF h1 h2 h3] h1 h2 nb w by (simp add: list_all_iff)
qed

text \<open>
  With a positive indent the text returned by \<^verbatim>\<open>wordwrap\<close> is not a fixed point: every
  call indents again. \<^verbatim>\<open>wordwrap('abc', 2, 75)\<close> is \<^verbatim>\<open>'  abc\n'\<close>, and wrapping that
  with the same parameters gives \<^verbatim>\<open>'    abc\n'\<close>. With indent 0 a tab is expanded, and
  a line of spaces that is longer than the margin gets a second line break when it is wrapped
  again: \<^verbatim>\<open>wordwrap('     x', 0, 3)\<close> is \<^verbatim>\<open>'     \nx\n'\<close>, which is wrapped to
  \<^verbatim>\<open>'     \n\nx\n'\<close>.
\<close>

theorem wordwrap_not_idempotent_counterexample:
  "wordwrap ''abc'' 2 75 0 [] = ''  abc'' @ [NL] \<and>
   wordwrap (wordwrap ''abc'' 2 75 0 []) 2 75 0 [] = ''    abc'' @ [NL] \<and>
   wordwrap (wordwrap ''abc'' 2 75 0 []) 2 75 0 [] \<noteq> wordwrap ''abc'' 2 75 0 [] \<and>
   wordwrap (''a'' @ [TAB] @ ''b'' @ [NL]) 0 75 0 [] = ''a       b'' @ [NL] \<and>
   wordwrap ''     x'' 0 3 0 [] = ''     '' @ [NL] @ ''x'' @ [NL] \<and>
   wordwrap (wordwrap ''     x'' 0 3 0 []) 0 3 0 [] = ''     '' @ [NL, NL] @ ''x'' @ [NL] \<and>
   wordwrap (wordwrap ''     x'' 0 3 0 []) 0 3 0 [] \<noteq> wordwrap ''     x'' 0 3 0 []"
  by code_simp

section \<open>Source files and classification predicates\<close>

text \<open>
  C10. For a filename whose extension is already \<^verbatim>\<open>.py\<close> or \<^verbatim>\<open>.pyw\<close>,
  \<^verbatim>\<open>py_src_filename\<close> returns the filename itself, whatever the file system holds: also
  when no such file exists.
\<close>

theorem py_src_filename_source_extension:
  assumes "snd (os_path_splitext filename) \<in> set PY_SRC_EXTENSIONS"
  shows "py_src_filename fs filename = Inr filename"
  using assms by (simp add: py_src_filename_def split_def)

theorem py_src_filename_source_extension_witness:
  "snd (os_path_splitext ''pkg/mod.py'') \<in> set PY_SRC_EXTENSIONS \<and>
   \<not> isfile (files_only []) ''pkg/mod.py'' \<and>
   py_src_filename (files_only []) ''pkg/mod.py'' = Inr ''pkg/mod.py''"
proof -
  have h: "snd (os_path_splitext ''pkg/mod.py'') \<in> set PY_SRC_EXTENSIONS" by code_simp
  have "\<not> isfile (files_only []) ''pkg/mod.py''" by (simp add: files_only_def)
  then show ?thesis
    using py_src_filename_source_extension [OF h, of "files_only []"] h by simp
qed

text \<open>
  C6. For a filename whose extension is not a source extension, \<^verbatim>\<open>py_src_filename\<close>
  tries the base name with \<^verbatim>\<open>.py\<close> and then with \<^verbatim>\<open>.pyw\<close>, and returns the first
  that is a file; when neither is, it raises a \<^verbatim>\<open>ValueError\<close> whose message names the
  filename.
\<close>

theorem py_src_filename_resolves:
  assumes "snd (os_path_splitext filename) \<notin> set PY_SRC_EXTENSIONS"
  shows "py_src_filename fs filename =
           (let basefile = fst (os_path_splitext filename)
            in if isfile fs (basefile @ ''.py'') then Inr (basefile @ ''.py'')
               else if isfile fs (basefile @ ''.pyw'') then Inr (basefile @ ''.pyw'')
               else Inl (ValueError (''Could not find a corresponding Python source file for ''
                                     @ py_repr filename @ ''.'')))"
  using assms by (simp add: py_src_filename_def split_def Let_def PY_SRC_EXTENSIONS_def)

theorem py_src_filename_resolves_witness:
  "snd (os_path_splitext ''pkg/mod.pyc'') \<notin> set PY_SRC_EXTENSIONS \<and>
   py_src_filename (files_only [''pkg/mod.py'', ''pkg/mod.pyw'']) ''pkg/mod.pyc''
     = Inr ''pkg/mod.py'' \<and>
   py_src_filename (files_only [''pkg/mod.pyw'']) ''pkg/mod.pyc'' = Inr ''pkg/mod.pyw'' \<and>
   py_src_filename (files_only [''pkg/mod.pyc'']) ''pkg/mod.pyc''
     = Inl (ValueError (''Could not find a corresponding Python source file for ''
                        @ [CHR 0x27] @ ''pkg/mod.pyc'' @ [CHR 0x27] @ ''.''))"
proof -
  have h: "snd (os_path_splitext ''pkg/mod.pyc'') \<notin> set PY_SRC_EXTENSIONS" by code_simp
  have b: "fst (os_path_splitext ''pkg/mod.pyc'') = ''pkg/mod''" by code_simp
  have r: "py_repr ''pkg/mod.pyc'' = [CHR 0x27] @ ''pkg/mod.pyc'' @ [CHR 0x27]" by code_simp
  show ?thesis
    using py_src_filename_resolves [OF h, of "files_only [''pkg/mod.py'', ''pkg/mod.pyw'']"]
      py_src_filename_resolves [OF h, of "files_only [''pkg/mod.pyw'']"]
      py_src_filename_resolves [OF h, of "files_only [''pkg/mod.pyc'']"] h
    by (simp add: b r files_only_def)
qed

text \<open>
  The three predicates that test \<^verbatim>\<open>isinstance(x, six.string_types)\<close> first return
  \<open>False\<close> for every value that is not a string.
\<close>

lemma guarded_predicates_non_string:
  assumes "\<not> isinstance_string x"
  shows "is_module_file fs x = Inr False" and "is_src_filename fs x = Inr False"
    and "is_package_dir fs x = Inr False"
  using assms
  by (cases x; simp add: is_module_file_def is_src_filename_def is_package_dir_def)+

text \<open>
  C4. The claim is that no classification predicate raises, whatever it is given.
  \<^verbatim>\<open>is_module_file\<close>, \<^verbatim>\<open>is_src_filename\<close> and \<^verbatim>\<open>is_package_dir\<close> test
  \<^verbatim>\<open>isinstance(x, six.string_types)\<close> first and return \<open>False\<close> for any other value;
  \<^verbatim>\<open>is_pyname\<close> has no such test and hands its argument to \<^verbatim>\<open>re.match\<close>, which
  raises \<^verbatim>\<open>TypeError\<close> for \<open>None\<close> or a number.
\<close>

theorem is_pyname_raises_on_non_string:
  "is_pyname PNone = Inl TypeError \<and> is_pyname (PInt 42) = Inl TypeError"
  by (simp add: is_pyname_def)

section \<open>Rendering templates\<close>




text \<open>
  C8. A controller constructed for a stream that is not a tty has the empty string in every
  capability field, and renders \<^verbatim>\<open>${BOLD}x${NORMAL}\<close> as \<^verbatim>\<open>x\<close>.
\<close>

theorem non_tty_controller_is_plain:
  assumes "\<not> isatty term"
  shows "(\<forall>name\<in>set capability_names.
            getattr (TerminalController_init term force) name = Inr (PStr []))
         \<and> render (TerminalController_init term force) ''${BOLD}x${NORMAL}'' = Inr ''x''"
proof
  have init: "TerminalController_init term force = TerminalController_class force"
    using assms by (simp add: TerminalController_init_def)
  show "\<forall>name\<in>set capability_names.
          getattr (TerminalController_init term force) name = Inr (PStr [])"
    unfolding init
    by (simp add: capability_names_def getattr_def TerminalController_class_def)
  have parts: "render (TerminalController_class force)
                 (concat (map part_source [Subst ''BOLD'', Text ''x'', Subst ''NORMAL'']))
               = Inr (concat (map (part_rendered (TerminalController_class force))
                   [Subst ''BOLD'', Text ''x'', Subst ''NORMAL'']))"
    by (rule render_parts [OF capabilities_class]) (simp add: capability_names_def)
  have "str_attr (TerminalController_class force) ''BOLD'' = []"
    and "str_attr (TerminalController_class force) ''NORMAL'' = []"
    by (simp_all add: str_attr_def TerminalController_class_def)
  with parts show "render (TerminalController_init term force) ''${BOLD}x${NORMAL}'' = Inr ''x''"
    unfolding init by simp
qed

theorem non_tty_controller_is_plain_witness:
  "\<not> isatty pipe_stream \<and>
   list_all (\<lambda>name. getattr (TerminalController_init pipe_stream False) name = Inr (PStr []))
     capability_names \<and>
   render (TerminalController_init pipe_stream False) ''${BOLD}x${NORMAL}'' = Inr ''x''"
proof -
  have h: "\<not> isatty pipe_stream" by (simp add: pipe_stream_def)
  show ?thesis
    using non_tty_controller_is_plain [OF h, of False] h by (simp add: list_all_iff)
qed

section \<open>Outcomes of run_subprocess\<close>

text \<open>
  C3 (as amended). Where the \<^verbatim>\<open>subprocess\<close> module is available, \<^verbatim>\<open>run_subprocess\<close>
  returns the pair of the output and the error output when the child exits with status 0;
  when it exits with another status it raises \<^verbatim>\<open>RunSubprocessError\<close> with the message
  \<^verbatim>\<open>'<cmd[0]> failed'\<close> and both captured streams; an error raised while starting the child
  or communicating with it is not converted and reaches the caller as it was raised.
\<close>

theorem run_subprocess_outcomes:
  assumes "subprocess_import P"
  shows "(Popen_communicate P (command_words cmd) data = Inr (Some 0, out, err)
            \<longrightarrow> run_subprocess P cmd data = Some (Inr (out, err)))
       \<and> (Popen_communicate P (command_words cmd) data = Inr (Some rc, out, err)
            \<and> rc \<noteq> 0 \<and> command_words cmd \<noteq> []
            \<longrightarrow> run_subprocess P cmd data
                  = Some (Inl (RunSubprocessError (hd (command_words cmd) @ '' failed'') out err)))
       \<and> (Popen_communicate P (command_words cmd) data = Inl e \<and> \<not> is_ImportError e
            \<longrightarrow> run_subprocess P cmd data = Some (Inl e))"
  using assms
  by (cases "command_words cmd")
     (simp_all add: run_subprocess_def run_with_subprocess_def raise_RunSubprocessError_def)

theorem run_subprocess_outcomes_witness:
  "subprocess_import posix_platform \<and>
   run_subprocess posix_platform (CmdString ''cat'') (Some ''abc'') = Some (Inr (''abc'', [])) \<and>
   run_subprocess posix_platform (CmdList [''false'']) None
     = Some (Inl (RunSubprocessError ''false failed'' [] [])) \<and>
   run_subprocess posix_platform (CmdList [''no-such-program'']) None
     = Some (Inl (OSError ''[Errno 2] No such file or directory''))"
proof -
  have h: "subprocess_import posix_platform" by (simp add: posix_platform_def)
  have w1: "command_words (CmdString ''cat'') = [''cat'']" by code_simp
  have c1: "Popen_communicate posix_platform (command_words (CmdString ''cat'')) (Some ''abc'')
              = Inr (Some 0, ''abc'', [])"
    unfolding w1 by (simp add: posix_platform_def)
  have c2: "Popen_communicate posix_platform (command_words (CmdList [''false''])) None
              = Inr (Some 1, [], []) \<and> (1::int) \<noteq> 0 \<and> command_words (CmdList [''false'']) \<noteq> []"
    by (simp add: posix_platform_def command_words_def)
  have c3: "Popen_communicate posix_platform (command_words (CmdList [''no-such-program''])) None
              = Inl (OSError ''[Errno 2] No such file or directory'')
            \<and> \<not> is_ImportError (OSError ''[Errno 2] No such file or directory'')"
    by (simp add: posix_platform_def command_words_def)
  from run_subprocess_outcomes [OF h, of "CmdString ''cat''" "Some ''abc''" "''abc''" "[]"] c1
  have r1: "run_subprocess posix_platform (CmdString ''cat'') (Some ''abc'') = Some (Inr (''abc'', []))"
    by blast
  from run_subprocess_outcomes [OF h, of "CmdList [''false'']" None "[]" "[]" 1] c2
  have r2: "run_subprocess posix_platform (CmdList [''false'']) None
     = Some (Inl (RunSubprocessError (hd (command_words (CmdList [''false''])) @ '' failed'') [] []))"
    by blast
  from run_subprocess_outcomes [OF h, of "CmdList [''no-such-program'']" None _ _ _
      "OSError ''[Errno 2] No such file or directory''"] c3
  have r3: "run_subprocess posix_platform (CmdList [''no-such-program'']) None
     = Some (Inl (OSError ''[Errno 2] No such file or directory''))"
    by blast
  show ?thesis using h r1 r2 r3 by (simp add: command_words_def)
qed

text \<open>
  The claim as stated has every failure raise the typed error. When the command cannot be
  started, the \<^verbatim>\<open>OSError\<close> of \<^verbatim>\<open>Popen\<close> is not caught (only \<^verbatim>\<open>ImportError\<close> is) and reaches
  the caller; and where \<^verbatim>\<open>os.popen3\<close> is used, a failed write to the child is raised as a
  plain \<^verbatim>\<open>OSError\<close>.
\<close>

theorem run_subprocess_launch_failure_counterexample:
  "run_subprocess posix_platform (CmdList [''no-such-program'']) None
     = Some (Inl (OSError ''[Errno 2] No such file or directory'')) \<and>
   OSError ''[Errno 2] No such file or directory''
     \<noteq> RunSubprocessError ''no-such-program failed'' [] [] \<and>
   run_subprocess popen3_platform (CmdList [''cat'']) (Some ''abc'')
     = Some (Inl (OSError ''[Errno 32] Broken pipe''))"
  by (simp add: run_subprocess_def run_with_subprocess_def command_words_def posix_platform_def
      popen3_platform_def run_with_os_popen3_def data_given_def closed_pipe_def)

end
